theory Spec2Isabelle
  imports Main
begin

section \<open>Address validation and address files (interface.py, lines 14 and 38--59)\<close>

text \<open>
  Python strings are modelled as \<^typ>\<open>string\<close>. The pattern of \<^verbatim>\<open>ipv4_re\<close> is
  \<^verbatim>\<open>^(?:[0-9]{1,3}\.){3}[0-9]{1,3}$\<close>. It has no capture whose value is used, so
  only whether it matches matters; the matcher below follows the pattern piece by piece
  and returns, for each piece, every rest of the input the piece can leave behind.
\<close>

definition is_digit :: "char \<Rightarrow> bool" where
  \<comment> \<open>the class \<^verbatim>\<open>[0-9]\<close>: for a str pattern it holds the ASCII digits only\<close>
  "is_digit c = (c \<in> set ''0123456789'')"

definition digits_1_3 :: "string \<Rightarrow> string list" where
  \<comment> \<open>\<^verbatim>\<open>[0-9]{1,3}\<close>: one to three digits, the longest first (greedy)\<close>
  "digits_1_3 s =
     [drop n s. n \<leftarrow> [3, 2, 1], n \<le> length s \<and> list_all is_digit (take n s)]"

definition dot_group :: "string \<Rightarrow> string list" where
  \<comment> \<open>\<^verbatim>\<open>(?:[0-9]{1,3}\.)\<close>: the digits, then a literal dot\<close>
  "dot_group s = [tl r. r \<leftarrow> digits_1_3 s, r \<noteq> [] \<and> hd r = CHR ''.'']"

definition at_end :: "string \<Rightarrow> bool" where
  \<comment> \<open>\<^verbatim>\<open>$\<close> without MULTILINE: at the end of the string, or just before a line feed
      that is the last character\<close>
  "at_end r = (r = [] \<or> r = ''\<newline>'')"

definition ipv4_re_match :: "string \<Rightarrow> bool" where
  \<comment> \<open>\<^verbatim>\<open>re.match(ipv4_re, val)\<close> finds a match; \<^verbatim>\<open>^\<close> is the start of the string\<close>
  "ipv4_re_match s =
     list_ex at_end
       (concat (map digits_1_3
         (concat (map dot_group (concat (map dot_group (dot_group s)))))))"

definition validate_ipv4 :: "string \<Rightarrow> bool" where
  \<comment> \<open>returns the match object (truthy) or \<^verbatim>\<open>False\<close>; every caller only tests it\<close>
  "validate_ipv4 val = ipv4_re_match val"

definition is_space :: "char \<Rightarrow> bool" where
  \<comment> \<open>the characters \<^verbatim>\<open>str.isspace\<close> accepts among the first 256 code points\<close>
  "is_space c =
     (c \<in> set [CHR 0x09, CHR 0x0A, CHR 0x0B, CHR 0x0C, CHR 0x0D, CHR 0x1C, CHR 0x1D,
                CHR 0x1E, CHR 0x1F, CHR 0x20, CHR 0x85, CHR 0xA0])"

definition strip :: "string \<Rightarrow> string" where
  \<comment> \<open>\<^verbatim>\<open>str.strip()\<close>: drops whitespace at both ends\<close>
  "strip s = rev (dropWhile is_space (rev (dropWhile is_space s)))"

datatype error =
    NameError string
  | KeyError string
  | AttributeError string
  | OSError string
  | UnicodeDecodeError
  \<comment> \<open>the exceptions the modelled code can raise; \<^verbatim>\<open>OSError\<close> carries the name of its
      subclass (\<^verbatim>\<open>IsADirectoryError\<close>, \<^verbatim>\<open>PermissionError\<close>, \<^verbatim>\<open>FileNotFoundError\<close>) or of
      its errno\<close>

datatype node =
    Missing
  | Regular "string list"
  | Unreadable error
  | Unstattable error
  \<comment> \<open>what the file system holds at a path. \<^verbatim>\<open>Missing\<close>: \<^verbatim>\<open>Path(p).exists()\<close> is false.
      \<^verbatim>\<open>Regular lines\<close>: the path exists and iterating \<^verbatim>\<open>open(p)\<close> yields the lines, each
      with its line end. \<^verbatim>\<open>Unreadable e\<close>: the path exists and opening or reading it raises
      (a directory, a file without read permission, bytes that do not decode).
      \<^verbatim>\<open>Unstattable e\<close>: \<^verbatim>\<open>Path(p).exists()\<close> itself raises (an over-long name, a parent
      directory that may not be searched).\<close>

type_synonym files = "string \<Rightarrow> node"

definition path_exists :: "files \<Rightarrow> string \<Rightarrow> error + bool" where
  \<comment> \<open>\<^verbatim>\<open>Path(p).exists()\<close>\<close>
  "path_exists fs p =
     (case fs p of
        Missing \<Rightarrow> Inr False
      | Regular lines \<Rightarrow> Inr True
      | Unreadable e \<Rightarrow> Inr True
      | Unstattable e \<Rightarrow> Inl e)"

definition valid_lines :: "string list \<Rightarrow> string list" where
  \<comment> \<open>lines 44--48: the loop over the lines of the file\<close>
  "valid_lines lines = filter validate_ipv4 (map strip lines)"

definition ipv4_from_file :: "files \<Rightarrow> string \<Rightarrow> error + string list" where
  \<comment> \<open>lines 38--50. The decorator \<^verbatim>\<open>validate_file_presence\<close> is imported from the package;
      the script calls the function only for paths that exist, and the decorator is taken
      to pass such a call through.\<close>
  "ipv4_from_file fs infile =
     (case fs infile of
        Missing \<Rightarrow> Inl (OSError ''FileNotFoundError'')
      | Regular lines \<Rightarrow> Inr (valid_lines lines)
      | Unreadable e \<Rightarrow> Inl e
      | Unstattable e \<Rightarrow> Inl e)"

subsection \<open>The pattern in words\<close>

fun split_dots :: "string \<Rightarrow> string list" where
  \<comment> \<open>the fields of a string between its dots\<close>
  "split_dots [] = [[]]"
| "split_dots (c # cs) =
     (if c = CHR ''.'' then [] # split_dots cs
      else (c # hd (split_dots cs)) # tl (split_dots cs))"

fun dec_value :: "string \<Rightarrow> nat" where
  \<comment> \<open>the number a string of digits denotes, read from a reversed string\<close>
  "dec_value [] = 0"
| "dec_value (c # cs) = (of_char c - 48) + 10 * dec_value cs"

definition digit_group :: "string \<Rightarrow> bool" where
  \<comment> \<open>one to three decimal digits\<close>
  "digit_group g = (1 \<le> length g \<and> length g \<le> 3 \<and> list_all is_digit g)"

definition octet :: "string \<Rightarrow> bool" where
  \<comment> \<open>a decimal octet in the range 0--255, as the specification words it\<close>
  "octet g = (digit_group g \<and> dec_value (rev g) \<le> 255)"

definition strict_dotted_quad :: "string \<Rightarrow> bool" where
  \<comment> \<open>the specification's reading: four dot-separated decimal octets, each 0--255\<close>
  "strict_dotted_quad s = (length (split_dots s) = 4 \<and> list_all octet (split_dots s))"

definition digit_quad :: "string \<Rightarrow> bool" where
  \<comment> \<open>four dot-separated groups of one to three digits, of any value\<close>
  "digit_quad s = (length (split_dots s) = 4 \<and> list_all digit_group (split_dots s))"

definition ipv4_pattern :: "string \<Rightarrow> bool" where
  \<comment> \<open>what the pattern accepts: such a quad, or such a quad and one final line feed\<close>
  "ipv4_pattern s =
     (digit_quad s \<or> (s \<noteq> [] \<and> last s = CHR ''\<newline>'' \<and> digit_quad (butlast s)))"

section \<open>Filter lists and their population (interface.py, lines 427--554)\<close>

text \<open>
  The script runs as \<^verbatim>\<open>__main__\<close>; what it prints, how it ends and which calls into
  the package it makes are recorded as a list of events, and so is every file it
  opens. Exceptions are values; an exception that nothing catches ends the run.
\<close>

record Lists =
  \<comment> \<open>Modelled from the spec: class \<^verbatim>\<open>Lists\<close> of the package \<^verbatim>\<open>eavesarp.eavesarp\<close>, which is
      not among the sources: an object with the two attributes \<^verbatim>\<open>white\<close> and \<^verbatim>\<open>black\<close>,
      each a Python list, both empty after \<^verbatim>\<open>Lists()\<close>\<close>
  white :: "string list"
  black :: "string list"

definition new_Lists :: Lists where
  "new_Lists = \<lparr>white = [], black = []\<rparr>"

definition check :: "Lists \<Rightarrow> string \<Rightarrow> bool" where
  \<comment> \<open>Modelled from the spec: method \<^verbatim>\<open>Lists.check\<close> of the package, not among the
      sources. If the whitelist is non-empty, membership in it is required; otherwise, if
      the blacklist is non-empty, absence from it is required; otherwise default-allow.\<close>
  "check l ip =
     (if white l \<noteq> [] then ip \<in> set (white l)
      else if black l \<noteq> [] then ip \<notin> set (black l)
      else True)"

record args =
  \<comment> \<open>the namespace \<^verbatim>\<open>parse_args\<close> returns; \<^verbatim>\<open>None\<close> for \<^verbatim>\<open>output_columns\<close> is a namespace
      without that attribute, \<^verbatim>\<open>None\<close> for a list argument is Python's \<^verbatim>\<open>None\<close>\<close>
  cmd :: "string option"
  output_columns :: "string list option"
  whitelist :: "string list option"
  blacklist :: "string list option"
  sender_whitelist :: "string list option"
  target_whitelist :: "string list option"
  sender_blacklist :: "string list option"
  target_blacklist :: "string list option"
  pcap_files :: "string list"
  sqlite_files :: "string list"

datatype event =
    Print string
  | PrintHelp
  | Exit
  | Raise error
  | OpenFile string
  | CallAnalyze Lists Lists
  | CallGetOutput Lists Lists "string list"
  | CallCapture Lists Lists

type_synonym 'a run = "event list \<times> (error + 'a)"
  \<comment> \<open>the events of a part of the run, and its result or the exception that ended it\<close>

function global_values :: "files \<Rightarrow> string list \<Rightarrow> string list \<Rightarrow> string list run" where
  \<comment> \<open>lines 453--463: \<^verbatim>\<open>for ival in vals\<close>, where the second argument is the part of
      \<^verbatim>\<open>vals\<close> the iteration has not reached yet. \<^verbatim>\<open>vals += ipv4_from_file(ival)\<close> appends
      to the list being iterated, so the loop reaches the file's addresses later. The
      message of line 459 formats the name \<^verbatim>\<open>line\<close>, which is bound nowhere before
      line 506: evaluating it raises \<^verbatim>\<open>NameError\<close> before anything is printed.\<close>
  "global_values fs [] values = ([], Inr values)"
| "global_values fs (ival # vals) values =
     (if \<not> validate_ipv4 ival then
        (case path_exists fs ival of
           Inl e \<Rightarrow> ([], Inl e)
         | Inr found \<Rightarrow>
             if \<not> found then ([], Inl (NameError ''line''))
             else
               (case ipv4_from_file fs ival of
                  Inl e \<Rightarrow> ([OpenFile ival], Inl e)
                | Inr addrs \<Rightarrow>
                    (case global_values fs (vals @ addrs) values of
                       (out, r) \<Rightarrow> (OpenFile ival # out, r))))
      else global_values fs vals (values @ [ival]))"
  by pat_completeness auto
termination
  by (relation "measures [\<lambda>(fs, vals, values). length (filter (\<lambda>v. \<not> validate_ipv4 v) vals),
                          \<lambda>(fs, vals, values). length vals]")
     (auto simp: ipv4_from_file_def valid_lines_def filter_empty_conv split: node.splits)

definition extend_list :: "string \<Rightarrow> string list \<Rightarrow> Lists \<Rightarrow> Lists" where
  \<comment> \<open>\<^verbatim>\<open>lst = obj.__getattribute__(list_type); lst += values\<close>: extends the object's own
      list in place\<close>
  "extend_list list_type values l =
     (if list_type = ''white'' then l\<lparr>white := white l @ values\<rparr>
      else l\<lparr>black := black l @ values\<rparr>)"

definition add_global ::
  "string \<Rightarrow> string list option \<Rightarrow> files \<Rightarrow> (Lists \<times> Lists) run \<Rightarrow> (Lists \<times> Lists) run" where
  \<comment> \<open>one round of the loop of line 445, on the pair (sender_lists, target_lists);
      nothing runs after an exception\<close>
  "add_global list_type vals fs st =
     (case st of
        (out, Inl e) \<Rightarrow> st
      | (out, Inr ls) \<Rightarrow>
          (case vals of
             None \<Rightarrow> st
           | Some vs \<Rightarrow>
               if vs = [] then st
               else
                 (case global_values fs vs [] of
                    (out', Inl e) \<Rightarrow> (out @ out', Inl e)
                  | (out', Inr values) \<Rightarrow>
                      (out @ out',
                       Inr (extend_list list_type values (fst ls),
                            extend_list list_type values (snd ls))))))"

definition populate_global :: "args \<Rightarrow> files \<Rightarrow> (Lists \<times> Lists) run \<Rightarrow> (Lists \<times> Lists) run" where
  \<comment> \<open>lines 445--468: \<^verbatim>\<open>for list_type in ['white','black']\<close>\<close>
  "populate_global a fs st =
     add_global ''black'' (blacklist a) fs (add_global ''white'' (whitelist a) fs st)"

definition warning :: "string \<Rightarrow> event" where
  "warning line = Print (''Invalid ipv4 address and unknown file, skipping: '' @ line)"

fun add_lines ::
  "files \<Rightarrow> string list \<Rightarrow> string list \<Rightarrow> event list \<times> string list \<times> error option" where
  \<comment> \<open>lines 506--518: \<^verbatim>\<open>for line in arg_val\<close> on the list \<^verbatim>\<open>lst\<close>, which is extended in
      place; returns the events, the list as the loop leaves it, and the exception that
      ended the loop, if any\<close>
  "add_lines fs [] lst = ([], lst, None)"
| "add_lines fs (line # arg_val) lst =
     (if \<not> validate_ipv4 line then
        (case path_exists fs line of
           Inl e \<Rightarrow> ([], lst, Some e)
         | Inr found \<Rightarrow>
             if \<not> found then
               (case add_lines fs arg_val lst of (out, r) \<Rightarrow> (warning line # out, r))
             else
               (case ipv4_from_file fs line of
                  Inl e \<Rightarrow> ([OpenFile line], lst, Some e)
                | Inr addrs \<Rightarrow>
                    (case add_lines fs arg_val (lst @ addrs) of
                       (out, r) \<Rightarrow> (OpenFile line # out, r))))
      else add_lines fs arg_val (lst @ [line]))"

definition populate_arg ::
  "bool \<Rightarrow> string \<Rightarrow> string list option \<Rightarrow> files \<Rightarrow> (Lists \<times> Lists) run \<Rightarrow>
   (Lists \<times> Lists) run" where
  \<comment> \<open>one round of the loop of line 470 for an argument whose name matches \<^verbatim>\<open>reg_list\<close>;
      the flag says that the host type is \<^verbatim>\<open>sender\<close>. Line 520 rebinds the local name
      \<^verbatim>\<open>lst\<close> to a new list and leaves the object's list as it is.\<close>
  "populate_arg is_sender list_type arg_val fs st =
     (case st of
        (out, Inl e) \<Rightarrow> st
      | (out, Inr (s_lists, t_lists)) \<Rightarrow>
          (case arg_val of
             None \<Rightarrow> st
           | Some vs \<Rightarrow>
               if vs = [] then st
               else
                 let obj = (if is_sender then s_lists else t_lists);
                     lst = (if list_type = ''white'' then white obj else black obj)
                 in (case add_lines fs vs lst of
                       (out', lst', Some e) \<Rightarrow> (out @ out', Inl e)
                     | (out', lst', None) \<Rightarrow>
                         let obj' = (if list_type = ''white'' then obj\<lparr>white := lst'\<rparr>
                                     else obj\<lparr>black := lst'\<rparr>)
                         in (out @ out',
                             Inr (if is_sender then obj' else s_lists,
                                  if is_sender then t_lists else obj')))))"

definition populate_args :: "args \<Rightarrow> files \<Rightarrow> (Lists \<times> Lists) run \<Rightarrow> (Lists \<times> Lists) run" where
  \<comment> \<open>lines 470--520: the arguments matching \<^verbatim>\<open>reg_list\<close>, in the order in which the
      parser declares them\<close>
  "populate_args a fs st =
     populate_arg False ''black'' (target_blacklist a) fs
       (populate_arg True ''black'' (sender_blacklist a) fs
         (populate_arg False ''white'' (target_whitelist a) fs
           (populate_arg True ''white'' (sender_whitelist a) fs st)))"

fun index_of :: "'a list \<Rightarrow> 'a \<Rightarrow> nat option" where
  \<comment> \<open>\<^verbatim>\<open>list.index\<close>: the first position of the value; \<^verbatim>\<open>None\<close> is its \<^verbatim>\<open>ValueError\<close>\<close>
  "index_of [] v = None"
| "index_of (x # xs) v = (if x = v then Some 0 else map_option Suc (index_of xs v))"

definition delitem :: "'a list \<Rightarrow> nat \<Rightarrow> 'a list" where
  \<comment> \<open>\<^verbatim>\<open>list.__delitem__\<close>, only called with a position inside the list\<close>
  "delitem xs i = take i xs @ drop (Suc i) xs"

function prevent_loop :: "nat \<Rightarrow> string list \<Rightarrow> string list \<Rightarrow> string list \<times> string list" where
  \<comment> \<open>lines 532--551: the while loop on \<^verbatim>\<open>counter\<close>, \<^verbatim>\<open>var.white\<close> and \<^verbatim>\<open>var.black\<close>\<close>
  "prevent_loop counter w b =
     (if counter < length w then
        (case index_of b (w ! counter) of
           Some ind \<Rightarrow> prevent_loop counter (delitem w counter) (delitem b ind)
         | None \<Rightarrow> prevent_loop (counter + 1) w b)
      else (w, b))"
  by pat_completeness auto
termination
  by (relation "measure (\<lambda>(counter, w, b). length w - counter)")
     (auto simp: delitem_def)

definition list_set :: "string list \<Rightarrow> string list" where
  \<comment> \<open>\<^verbatim>\<open>list(set(xs))\<close>: the distinct values of the list. Python fixes no order for them;
      the order chosen here is one of the possible ones and no result depends on it.\<close>
  "list_set xs = remdups xs"

definition prevent_duplicates :: "Lists \<Rightarrow> Lists" where
  \<comment> \<open>lines 531--554 for one lists object\<close>
  "prevent_duplicates var =
     (case prevent_loop 0 (white var) (black var) of
        (w, b) \<Rightarrow> \<lparr>white = list_set w, black = list_set b\<rparr>)"

definition populate :: "args \<Rightarrow> files \<Rightarrow> (Lists \<times> Lists) run" where
  \<comment> \<open>lines 427--520: both lists objects as conflict resolution finds them, with the
      events on the way\<close>
  "populate a fs = populate_args a fs (populate_global a fs ([], Inr (new_Lists, new_Lists)))"

definition build_lists :: "args \<Rightarrow> files \<Rightarrow> (Lists \<times> Lists) run" where
  \<comment> \<open>lines 427--554: population, then conflict resolution on each object\<close>
  "build_lists a fs =
     (case populate a fs of
        (out, Inl e) \<Rightarrow> (out, Inl e)
      | (out, Inr (s_lists, t_lists)) \<Rightarrow>
          (out, Inr (prevent_duplicates s_lists, prevent_duplicates t_lists)))"

definition nothing :: files where
  \<comment> \<open>a file system in which no path of interest exists\<close>
  "nothing = (\<lambda>p. Missing)"

section \<open>The script, from the parsed arguments on (interface.py, lines 397--580)\<close>

definition COL_MAP :: "(string \<times> string) list" where
  \<comment> \<open>a dict literal: the keys in the order written\<close>
  "COL_MAP =
     [(''arp_count'', ''ARP#''),
      (''sender'', ''Sender''),
      (''sender_mac'', ''Sender MAC''),
      (''target'', ''Target''),
      (''target_mac'', ''Target MAC''),
      (''stale'', ''Stale''),
      (''sender_ptr'', ''Sender PTR (PTR > FWD)''),
      (''target_ptr'', ''Target PTR (PTR > FWD)''),
      (''mitm_op'', ''Target IP != Forward IP'')]"

definition COL_ORDER :: "string list" where
  "COL_ORDER =
     [''arp_count'', ''sender'', ''target'', ''stale'', ''sender_ptr'', ''target_ptr'',
      ''mitm_op'']"

fun join :: "string \<Rightarrow> string list \<Rightarrow> string" where
  \<comment> \<open>\<^verbatim>\<open>sep.join(xs)\<close>\<close>
  "join sep [] = []"
| "join sep [x] = x"
| "join sep (x # y # ys) = x @ sep @ join sep (y # ys)"

definition print2 :: "string \<Rightarrow> string \<Rightarrow> event" where
  \<comment> \<open>\<^verbatim>\<open>print(a, b)\<close>: the two values with one space between them\<close>
  "print2 a b = Print (a @ '' '' @ b)"

definition check_columns :: "string list \<Rightarrow> event list option" where
  \<comment> \<open>lines 408--421, for the value of \<^verbatim>\<open>args.output_columns\<close>: the events up to
      \<^verbatim>\<open>exit()\<close> when the check ends the run, \<^verbatim>\<open>None\<close> when the run goes on\<close>
  "check_columns cols =
     (if cols = [] then
        Some [Print ''- Output columns are required'', Print ''Exiting!'', Exit]
      else
        let vals = map fst COL_MAP;
            bad = filter (\<lambda>v. v \<notin> set vals) cols
        in if bad \<noteq> [] then
             Some [print2 ''- Invalid column values provided: '' (join '','' bad),
                   print2 ''- Valid values: '' (join '','' vals),
                   Print ''Exiting!'', Exit]
           else None)"

definition execute :: "string \<Rightarrow> args \<Rightarrow> Lists \<Rightarrow> Lists \<Rightarrow> event list" where
  \<comment> \<open>lines 563--583: the command. \<^verbatim>\<open>analyze\<close>, \<^verbatim>\<open>get_output\<close> on the database that
      \<^verbatim>\<open>analyze\<close> wrote, and the capture loop read the network and the disk; each is
      recorded as the call, with the lists objects it receives\<close>
  "execute c a s_lists t_lists =
     (if c = ''analyze'' then
        (if pcap_files a = [] \<and> sqlite_files a = [] then
           [Print ''- Analyze command requires at least one input file.'', Exit]
         else
           CallAnalyze s_lists t_lists #
           (case output_columns a of
              None \<Rightarrow> [Raise (AttributeError ''output_columns'')]
            | Some cols \<Rightarrow> [CallGetOutput s_lists t_lists cols]))
      else if c = ''capture'' then [CallCapture s_lists t_lists]
      else [])"

definition main :: "args \<Rightarrow> files \<Rightarrow> event list" where
  \<comment> \<open>lines 397--583. An uncaught exception ends the run as \<^verbatim>\<open>exit()\<close> does.\<close>
  "main a fs =
     (case cmd a of
        None \<Rightarrow> [PrintHelp, Exit]
      | Some c \<Rightarrow>
          (case (case output_columns a of None \<Rightarrow> None | Some cols \<Rightarrow> check_columns cols) of
             Some stop \<Rightarrow> stop
           | None \<Rightarrow>
               (case build_lists a fs of
                  (out, Inl e) \<Rightarrow> out @ [Raise e]
                | (out, Inr (s_lists, t_lists)) \<Rightarrow> out @ execute c a s_lists t_lists)))"

definition ingesting :: "event \<Rightarrow> bool" where
  \<comment> \<open>the events that are ingestion, capture or rendering\<close>
  "ingesting e =
     (case e of CallAnalyze _ _ \<Rightarrow> True | CallGetOutput _ _ _ \<Rightarrow> True
      | CallCapture _ _ \<Rightarrow> True | _ \<Rightarrow> False)"

definition processing :: "event \<Rightarrow> bool" where
  \<comment> \<open>the events that are processing of any kind: list population reading an address
      file, ingestion, capture or rendering\<close>
  "processing e = (case e of OpenFile _ \<Rightarrow> True | _ \<Rightarrow> ingesting e)"

definition populating :: "event \<Rightarrow> bool" where
  \<comment> \<open>the events of list population: a warning printed, a file opened\<close>
  "populating e = (case e of Print _ \<Rightarrow> True | OpenFile _ \<Rightarrow> True | _ \<Rightarrow> False)"

definition is_print :: "event \<Rightarrow> bool" where
  "is_print e = (case e of Print _ \<Rightarrow> True | _ \<Rightarrow> False)"

definition diagnosed_exit :: "event list \<Rightarrow> bool" where
  \<comment> \<open>a run that prints a diagnostic and terminates before any processing begins: it
      consists of printed lines, at least one, and the exit\<close>
  "diagnosed_exit run =
     (run \<noteq> [] \<and> last run = Exit \<and> butlast run \<noteq> [] \<and> list_all is_print (butlast run))"

section \<open>The table (interface.py, lines 62--148)\<close>

record host =
  \<comment> \<open>Modelled from the spec: the Host objects a transaction refers to are of a class of
      the package, not among the sources; \<^verbatim>\<open>value\<close> is the address (the spec's \<^verbatim>\<open>ip\<close>)\<close>
  "value" :: string
  mac_address :: "string option"
  ptr_hostname :: "string option"
  fwd_resolved_ip :: "string option"

record transaction =
  \<comment> \<open>Modelled from the spec: class \<^verbatim>\<open>Transaction\<close> of the package, not among the sources\<close>
  sender :: host
  target :: host
  count :: nat
  first_seen :: nat
  last_seen :: nat
  stale :: bool
  mitm_op :: bool

record color_profile =
  \<comment> \<open>the three methods of a colour profile that \<^verbatim>\<open>get_output\<close> calls; the class is
      imported from \<^verbatim>\<open>eavesarp.color\<close>\<close>
  style_odd :: "string list \<Rightarrow> string list"
  style_even :: "string list \<Rightarrow> string list"
  style_header :: "string list \<Rightarrow> string list"

record formatters =
  \<comment> \<open>the two methods of a transaction that build a cell; they belong to the package\<close>
  build_stale :: "transaction \<Rightarrow> color_profile option \<Rightarrow> string"
  bfh :: "transaction \<Rightarrow> string \<Rightarrow> bool \<Rightarrow> string"

datatype rendered = Message string | Table "string list" "string list list"
  \<comment> \<open>what \<^verbatim>\<open>get_output\<close> returns: the message, or \<^verbatim>\<open>Table headers rows\<close> for
      \<^verbatim>\<open>tabulate(rows, headers=headers)\<close>\<close>

definition rejected :: "Lists option \<Rightarrow> string \<Rightarrow> bool" where
  \<comment> \<open>\<^verbatim>\<open>lists and not lists.check(v)\<close>; a lists object is truthy, \<^verbatim>\<open>None\<close> is not\<close>
  "rejected ls v = (case ls of None \<Rightarrow> False | Some l \<Rightarrow> \<not> check l v)"

definition build_cell ::
  "formatters \<Rightarrow> color_profile option \<Rightarrow> transaction \<Rightarrow> bool \<Rightarrow> string \<Rightarrow> string" where
  \<comment> \<open>lines 98--117: the cell of one column\<close>
  "build_cell fm cp t new_sender col =
     (if col = ''sender'' then (if new_sender then value (sender t) else '''')
      else if col = ''target'' then value (target t)
      else if col = ''stale'' then build_stale fm t cp
      else bfh fm t (''build_'' @ (if col = ''arp_count'' then ''count'' else col)) new_sender)"

definition append_row ::
  "(string \<times> string list list) list \<Rightarrow> string \<Rightarrow> string list \<Rightarrow>
   (string \<times> string list list) list" where
  \<comment> \<open>\<^verbatim>\<open>rowdict[sender].append(row)\<close> for a key that is present\<close>
  "append_row rowdict k row = map (\<lambda>(k', rs). if k' = k then (k', rs @ [row]) else (k', rs)) rowdict"

fun organize ::
  "formatters \<Rightarrow> Lists option \<Rightarrow> Lists option \<Rightarrow> color_profile option \<Rightarrow> string list \<Rightarrow>
   transaction list \<Rightarrow> (string \<times> string list list) list \<Rightarrow> (string \<times> string list list) list" where
  \<comment> \<open>lines 78--120: \<^verbatim>\<open>for t in transactions\<close> on \<^verbatim>\<open>rowdict\<close>, a dict kept as the list of
      its items in insertion order\<close>
  "organize fm sender_lists target_lists cp columns [] rowdict = rowdict"
| "organize fm sender_lists target_lists cp columns (t # ts) rowdict =
     (if rejected sender_lists (value (sender t)) then
        organize fm sender_lists target_lists cp columns ts rowdict
      else if rejected target_lists (value (target t)) then
        organize fm sender_lists target_lists cp columns ts rowdict
      else
        let new_sender = (value (sender t) \<notin> set (map fst rowdict));
            row = map (build_cell fm cp t new_sender) columns
        in organize fm sender_lists target_lists cp columns ts
             (if new_sender then rowdict @ [(value (sender t), [row])]
              else append_row rowdict (value (sender t)) row))"

fun restructure ::
  "color_profile option \<Rightarrow> (string \<times> string list list) list \<Rightarrow> nat \<Rightarrow> string list list \<Rightarrow>
   string list list" where
  \<comment> \<open>lines 123--138: \<^verbatim>\<open>for sender, irows in rowdict.items()\<close> on \<^verbatim>\<open>counter\<close> and \<^verbatim>\<open>rows\<close>\<close>
  "restructure cp [] counter rows = rows"
| "restructure cp ((key, irows) # items) counter rows =
     restructure cp items (counter + 1)
       (rows @
        (case cp of
           Some p \<Rightarrow>
             if (counter + 1) mod 2 \<noteq> 0 then map (style_odd p) irows
             else map (style_even p) irows
         | None \<Rightarrow> irows))"

fun headers_of :: "string list \<Rightarrow> error + string list" where
  \<comment> \<open>line 140: \<^verbatim>\<open>[COL_MAP[col] for col in columns]\<close>, with the \<^verbatim>\<open>KeyError\<close> of a name
      that is no key\<close>
  "headers_of [] = Inr []"
| "headers_of (col # cols) =
     (case map_of COL_MAP col of
        None \<Rightarrow> Inl (KeyError col)
      | Some h \<Rightarrow> (case headers_of cols of Inl e \<Rightarrow> Inl e | Inr hs \<Rightarrow> Inr (h # hs)))"

definition no_requests :: string where
  "no_requests =
     ''- No accepted ARP requests captured\<newline>'' @
     ''- If this is unexpected, check your whitelist/blacklist configuration''"

definition get_output ::
  "formatters \<Rightarrow> transaction list \<Rightarrow> Lists option \<Rightarrow> Lists option \<Rightarrow> color_profile option \<Rightarrow>
   string list \<Rightarrow> error + rendered" where
  \<comment> \<open>the second argument is what \<^verbatim>\<open>get_transactions(db_session, order_by)\<close> returned\<close>
  "get_output fm transactions sender_lists target_lists cp columns =
     (if transactions = [] then Inr (Message no_requests)
      else
        let rowdict = organize fm sender_lists target_lists cp columns transactions [];
            rows = restructure cp rowdict 0 []
        in (case headers_of columns of
              Inl e \<Rightarrow> Inl e
            | Inr headers \<Rightarrow>
                Inr (Table (case cp of Some p \<Rightarrow> style_header p headers | None \<Rightarrow> headers)
                       rows)))"

definition capture_defaults :: args where
  \<comment> \<open>the namespace of \<^verbatim>\<open>capture\<close> with no option given (lines 170--228, 320--391)\<close>
  "capture_defaults =
     \<lparr>cmd = Some ''capture'', output_columns = Some COL_ORDER, whitelist = None,
      blacklist = None, sender_whitelist = None, target_whitelist = None,
      sender_blacklist = None, target_blacklist = None, pcap_files = [], sqlite_files = []\<rparr>"

definition analyze_defaults :: args where
  \<comment> \<open>the namespace of \<^verbatim>\<open>analyze\<close> with no option given (lines 260--314)\<close>
  "analyze_defaults = capture_defaults\<lparr>cmd := Some ''analyze''\<rparr>"

subsection \<open>The table in words\<close>

definition accepted :: "Lists option \<Rightarrow> Lists option \<Rightarrow> transaction \<Rightarrow> bool" where
  \<comment> \<open>neither the sender nor the target address is rejected\<close>
  "accepted sender_lists target_lists t =
     (\<not> rejected sender_lists (value (sender t)) \<and> \<not> rejected target_lists (value (target t)))"

definition first_occurrences :: "'a list \<Rightarrow> 'a list" where
  \<comment> \<open>the distinct values of a list, in the order in which they first occur\<close>
  "first_occurrences xs = rev (remdups (rev xs))"

definition sender_group ::
  "formatters \<Rightarrow> color_profile option \<Rightarrow> string list \<Rightarrow> string \<Rightarrow> transaction list \<Rightarrow>
   string list list" where
  \<comment> \<open>the rows of one sender: one row for each of its transactions, in their order, the
      first built as the row of a new sender\<close>
  "sender_group fm cp columns s ts =
     (case filter (\<lambda>t. value (sender t) = s) ts of
        [] \<Rightarrow> []
      | t # rest \<Rightarrow>
          map (build_cell fm cp t True) columns #
          map (\<lambda>u. map (build_cell fm cp u False) columns) rest)"

definition styled :: "color_profile option \<Rightarrow> nat \<Rightarrow> string list list \<Rightarrow> string list list" where
  \<comment> \<open>the rows of the group at a position (counted from 1), as the profile styles them\<close>
  "styled cp n irows =
     (case cp of
        Some p \<Rightarrow> if n mod 2 \<noteq> 0 then map (style_odd p) irows else map (style_even p) irows
      | None \<Rightarrow> irows)"

definition groups ::
  "formatters \<Rightarrow> color_profile option \<Rightarrow> string list \<Rightarrow> transaction list \<Rightarrow>
   (string \<times> string list list) list" where
  \<comment> \<open>the distinct senders in the order of their first transaction, each with its rows\<close>
  "groups fm cp columns ts =
     map (\<lambda>s. (s, sender_group fm cp columns s ts))
       (first_occurrences (map (\<lambda>t. value (sender t)) ts))"

definition grouped_rows ::
  "formatters \<Rightarrow> color_profile option \<Rightarrow> string list \<Rightarrow> transaction list \<Rightarrow> string list list" where
  \<comment> \<open>group after group, each group's rows consecutive\<close>
  "grouped_rows fm cp columns ts =
     concat (map (\<lambda>(i, g). styled cp (Suc i) (snd g)) (enumerate 0 (groups fm cp columns ts)))"

section \<open>The resolver (specification, sections 4.2 and 4.3)\<close>

record resolver =
  \<comment> \<open>Modelled from the spec: the naming system and the probe, as the engine calls them;
      \<^verbatim>\<open>None\<close> is a timeout or a lookup error\<close>
  reverse_lookup :: "string \<Rightarrow> string option"
  forward_lookup :: "string \<Rightarrow> string option"
  arp_probe :: "string \<Rightarrow> string option"

record settings =
  \<comment> \<open>Modelled from the spec: whether reverse resolution and active probing are enabled,
      and the repeat threshold of the staleness rule\<close>
  reverse_enabled :: bool
  probing_enabled :: bool
  repeat_threshold :: nat

definition new_host :: "string \<Rightarrow> string option \<Rightarrow> host" where
  \<comment> \<open>Modelled from the spec: a Host is created on first reference, with nothing cached\<close>
  "new_host ip mac =
     \<lparr>value = ip, mac_address = mac, ptr_hostname = None, fwd_resolved_ip = None\<rparr>"

definition new_transaction :: "string \<Rightarrow> string \<Rightarrow> string \<Rightarrow> nat \<Rightarrow> transaction" where
  \<comment> \<open>Modelled from the spec: \<^verbatim>\<open>record\<close> of the package on the first observation of a
      pair. On creation, count=1 and first_seen=last_seen=timestamp; stale and mitm_op are
      written only by the Resolver.\<close>
  "new_transaction sender_ip sender_mac target_ip timestamp =
     \<lparr>sender = new_host sender_ip (Some sender_mac), target = new_host target_ip None,
      count = 1, first_seen = timestamp, last_seen = timestamp, stale = False,
      mitm_op = False\<rparr>"

definition resolve_names :: "resolver \<Rightarrow> settings \<Rightarrow> host \<Rightarrow> host" where
  \<comment> \<open>Modelled from the spec: the resolver of the package, steps 1 to 3. Reverse-resolve
      the address if not already cached and if reverse resolution is enabled; if the
      reverse resolution succeeded, forward-resolve the returned hostname.\<close>
  "resolve_names r cfg h =
     (let h1 = (if ptr_hostname h = None \<and> reverse_enabled cfg
                then h\<lparr>ptr_hostname := reverse_lookup r (value h)\<rparr> else h)
      in case ptr_hostname h1 of
           None \<Rightarrow> h1
         | Some name \<Rightarrow> h1\<lparr>fwd_resolved_ip := forward_lookup r name\<rparr>)"

definition enrich :: "resolver \<Rightarrow> settings \<Rightarrow> transaction \<Rightarrow> transaction" where
  \<comment> \<open>Modelled from the spec: \<^verbatim>\<open>enrich\<close> of the package. A mismatch, or a failure of
      the forward step after a successful reverse step, sets mitm_op = true; if the reverse
      step itself failed, mitm_op stays false. If active probing is enabled, no reply is
      received and the count has reached the threshold, stale = true.\<close>
  "enrich r cfg t =
     (let s = resolve_names r cfg (sender t);
          g = resolve_names r cfg (target t)
      in t\<lparr>sender := s, target := g,
            mitm_op :=
              (case ptr_hostname g of
                 None \<Rightarrow> mitm_op t
               | Some name \<Rightarrow> if fwd_resolved_ip g \<noteq> Some (value g) then True else mitm_op t),
            stale :=
              (if probing_enabled cfg \<and> arp_probe r (value g) = None \<and>
                  repeat_threshold cfg \<le> count t
               then True else stale t)\<rparr>)"

definition example_formatters :: formatters where
  \<comment> \<open>stand-ins for the package's cell builders, for concrete runs of the table\<close>
  "example_formatters = \<lparr>build_stale = (\<lambda>t cp. ''''), bfh = (\<lambda>t name new_sender. name)\<rparr>"

definition example_transactions :: "transaction list" where
  \<comment> \<open>three pairs, two of them of the same sender\<close>
  "example_transactions =
     [new_transaction ''10.0.0.5'' ''aa'' ''10.0.0.9'' 1,
      new_transaction ''10.0.0.6'' ''bb'' ''10.0.0.9'' 2,
      new_transaction ''10.0.0.5'' ''aa'' ''10.0.0.7'' 3]"

definition example_resolver :: resolver where
  \<comment> \<open>the scenario of the specification: 10.0.0.9 reverse-resolves to printer.local,
      which forward-resolves to 10.0.0.50; no other address has a name\<close>
  "example_resolver =
     \<lparr>reverse_lookup = (\<lambda>ip. if ip = ''10.0.0.9'' then Some ''printer.local'' else None),
      forward_lookup = (\<lambda>name. if name = ''printer.local'' then Some ''10.0.0.50'' else None),
      arp_probe = (\<lambda>ip. None)\<rparr>"

definition example_settings :: settings where
  "example_settings = \<lparr>reverse_enabled = True, probing_enabled = True, repeat_threshold = 3\<rparr>"

definition anomaly :: "resolver \<Rightarrow> settings \<Rightarrow> string \<Rightarrow> bool" where
  \<comment> \<open>the reverse resolution of the address succeeds and the forward resolution of the
      returned hostname fails or yields another address\<close>
  "anomaly r cfg ip =
     (reverse_enabled cfg \<and>
      (\<exists>name. reverse_lookup r ip = Some name \<and> forward_lookup r name \<noteq> Some ip))"

definition enriched :: "resolver \<Rightarrow> settings \<Rightarrow> string \<Rightarrow> transaction \<Rightarrow> bool" where
  \<comment> \<open>what every enrichment establishes and keeps for the target of a transaction\<close>
  "enriched r cfg ip t =
     (value (target t) = ip \<and>
      ptr_hostname (target t) = (if reverse_enabled cfg then reverse_lookup r ip else None) \<and>
      mitm_op t = anomaly r cfg ip)"

section \<open>Properties of address validation\<close>

lemma is_digit_dot: "\<not> is_digit CHR ''.''"
  by (simp add: is_digit_def)

lemma digit_group_no_dot: "digit_group a \<Longrightarrow> CHR ''.'' \<notin> set a"
  using is_digit_dot by (auto simp: digit_group_def list_all_iff)

lemma digits_1_3_set:
  "set (digits_1_3 s) =
     {drop n s | n. n \<in> {1, 2, 3} \<and> n \<le> length s \<and> list_all is_digit (take n s)}"
  unfolding digits_1_3_def by auto

lemma digits_1_3_iff:
  "r \<in> set (digits_1_3 s) \<longleftrightarrow> (\<exists>a. digit_group a \<and> s = a @ r)"
proof
  assume "r \<in> set (digits_1_3 s)"
  then obtain n where n: "n \<in> {1, 2, 3}" "n \<le> length s" "list_all is_digit (take n s)"
    and r: "r = drop n s"
    unfolding digits_1_3_set by blast
  from n have "digit_group (take n s)"
    by (auto simp: digit_group_def)
  moreover have "s = take n s @ r"
    by (simp add: r)
  ultimately show "\<exists>a. digit_group a \<and> s = a @ r"
    by blast
next
  assume "\<exists>a. digit_group a \<and> s = a @ r"
  then obtain a where a: "digit_group a" and s: "s = a @ r"
    by blast
  from a have "length a \<in> {1, 2, 3}"
    by (auto simp: digit_group_def)
  moreover have "drop (length a) s = r" "take (length a) s = a" "length a \<le> length s"
    by (simp_all add: s)
  moreover from a have "list_all is_digit a"
    by (simp add: digit_group_def)
  ultimately show "r \<in> set (digits_1_3 s)"
    unfolding digits_1_3_set by (metis (mono_tags, lifting) mem_Collect_eq)
qed

lemma dot_group_iff:
  "r \<in> set (dot_group s) \<longleftrightarrow> (\<exists>a. digit_group a \<and> s = a @ CHR ''.'' # r)"
proof
  assume "r \<in> set (dot_group s)"
  then obtain q where q: "q \<in> set (digits_1_3 s)" "q \<noteq> []" "hd q = CHR ''.''" "r = tl q"
    by (auto simp: dot_group_def)
  from q(2-4) have "q = CHR ''.'' # r"
    by (cases q) auto
  with q(1) show "\<exists>a. digit_group a \<and> s = a @ CHR ''.'' # r"
    by (simp add: digits_1_3_iff)
next
  assume "\<exists>a. digit_group a \<and> s = a @ CHR ''.'' # r"
  then have "CHR ''.'' # r \<in> set (digits_1_3 s)"
    by (simp add: digits_1_3_iff)
  then show "r \<in> set (dot_group s)"
    unfolding dot_group_def by force
qed

lemma ipv4_re_match_iff:
  "ipv4_re_match s \<longleftrightarrow>
     (\<exists>a b c d r. digit_group a \<and> digit_group b \<and> digit_group c \<and> digit_group d \<and>
        at_end r \<and> s = a @ CHR ''.'' # b @ CHR ''.'' # c @ CHR ''.'' # d @ r)"
proof -
  have "ipv4_re_match s \<longleftrightarrow>
     (\<exists>r1 r2 r3 r. r1 \<in> set (dot_group s) \<and> r2 \<in> set (dot_group r1) \<and>
        r3 \<in> set (dot_group r2) \<and> r \<in> set (digits_1_3 r3) \<and> at_end r)"
    unfolding ipv4_re_match_def list_ex_iff by auto
  also have "\<dots> \<longleftrightarrow>
     (\<exists>a b c d r. digit_group a \<and> digit_group b \<and> digit_group c \<and> digit_group d \<and>
        at_end r \<and> s = a @ CHR ''.'' # b @ CHR ''.'' # c @ CHR ''.'' # d @ r)"
    unfolding dot_group_iff digits_1_3_iff by blast
  finally show ?thesis .
qed

lemma split_dots_not_Nil [simp]: "split_dots s \<noteq> []"
  by (induction s) auto

lemma split_dots_field:
  "CHR ''.'' \<notin> set a \<Longrightarrow> split_dots (a @ CHR ''.'' # r) = a # split_dots r"
  by (induction a) auto

lemma split_dots_last: "CHR ''.'' \<notin> set a \<Longrightarrow> split_dots a = [a]"
  by (induction a) auto

lemma split_dots_single: "split_dots s = [g] \<Longrightarrow> s = g"
proof (induction s arbitrary: g)
  case Nil
  then show ?case by simp
next
  case (Cons c cs)
  then show ?case
    by (cases "split_dots cs") (auto split: if_splits)
qed

lemma split_dots_more:
  "split_dots s = g # h # hs \<Longrightarrow> \<exists>r. s = g @ CHR ''.'' # r \<and> split_dots r = h # hs"
proof (induction s arbitrary: g)
  case Nil
  then show ?case by simp
next
  case (Cons c cs)
  show ?case
  proof (cases "c = CHR ''.''")
    case True
    with Cons.prems show ?thesis by auto
  next
    case False
    with Cons.prems obtain g' where g': "split_dots cs = g' # h # hs" "g = c # g'"
      by (cases "split_dots cs") auto
    from Cons.IH [OF g'(1)] g'(2) show ?thesis by auto
  qed
qed

lemma length_four: "length xs = 4 \<Longrightarrow> \<exists>a b c d. xs = [a, b, c, d]"
  by (cases xs; simp; metis length_0_conv length_Suc_conv numeral_3_eq_3)

lemma digit_quad_iff:
  "digit_quad s \<longleftrightarrow>
     (\<exists>a b c d. digit_group a \<and> digit_group b \<and> digit_group c \<and> digit_group d \<and>
        s = a @ CHR ''.'' # b @ CHR ''.'' # c @ CHR ''.'' # d)"
proof
  assume q: "digit_quad s"
  then obtain a b c d where f: "split_dots s = [a, b, c, d]"
    unfolding digit_quad_def using length_four by blast
  with q have g: "digit_group a" "digit_group b" "digit_group c" "digit_group d"
    by (simp_all add: digit_quad_def)
  from split_dots_more [OF f] obtain r1 where r1: "s = a @ CHR ''.'' # r1" "split_dots r1 = [b, c, d]"
    by blast
  from split_dots_more [OF r1(2)] obtain r2 where r2: "r1 = b @ CHR ''.'' # r2" "split_dots r2 = [c, d]"
    by blast
  from split_dots_more [OF r2(2)] obtain r3 where r3: "r2 = c @ CHR ''.'' # r3" "split_dots r3 = [d]"
    by blast
  from split_dots_single [OF r3(2)] r1(1) r2(1) r3(1)
  have "s = a @ CHR ''.'' # b @ CHR ''.'' # c @ CHR ''.'' # d"
    by simp
  with g show "\<exists>a b c d. digit_group a \<and> digit_group b \<and> digit_group c \<and> digit_group d \<and>
        s = a @ CHR ''.'' # b @ CHR ''.'' # c @ CHR ''.'' # d"
    by blast
next
  assume "\<exists>a b c d. digit_group a \<and> digit_group b \<and> digit_group c \<and> digit_group d \<and>
        s = a @ CHR ''.'' # b @ CHR ''.'' # c @ CHR ''.'' # d"
  then obtain a b c d where g: "digit_group a" "digit_group b" "digit_group c" "digit_group d"
    and s: "s = a @ CHR ''.'' # b @ CHR ''.'' # c @ CHR ''.'' # d"
    by blast
  have "split_dots s = [a, b, c, d]"
    by (simp add: s split_dots_field split_dots_last digit_group_no_dot g)
  with g show "digit_quad s"
    by (simp add: digit_quad_def)
qed


section \<open>Properties of list population\<close>

lemma validate_ipv4_pattern: "validate_ipv4 s \<longleftrightarrow> ipv4_pattern s"
proof
  assume "validate_ipv4 s"
  then obtain a b c d r where g: "digit_group a" "digit_group b" "digit_group c" "digit_group d"
    and r: "at_end r" and s: "s = a @ CHR ''.'' # b @ CHR ''.'' # c @ CHR ''.'' # d @ r"
    unfolding validate_ipv4_def ipv4_re_match_iff by blast
  let ?q = "a @ CHR ''.'' # b @ CHR ''.'' # c @ CHR ''.'' # d"
  have q: "digit_quad ?q"
    unfolding digit_quad_iff using g by blast
  have sq: "s = ?q @ r"
    by (simp add: s)
  from r consider "r = []" | "r = ''\<newline>''"
    by (auto simp: at_end_def)
  then show "ipv4_pattern s"
  proof cases
    case 1
    with q sq show ?thesis by (simp add: ipv4_pattern_def)
  next
    case 2
    with sq have "s \<noteq> []" "last s = CHR ''\<newline>''" "butlast s = ?q"
      by (simp_all add: butlast_append)
    with q show ?thesis by (simp add: ipv4_pattern_def)
  qed
next
  assume "ipv4_pattern s"
  then consider "digit_quad s"
    | "s \<noteq> []" "last s = CHR ''\<newline>''" "digit_quad (butlast s)"
    by (auto simp: ipv4_pattern_def)
  then show "validate_ipv4 s"
  proof cases
    case 1
    then obtain a b c d where "digit_group a" "digit_group b" "digit_group c" "digit_group d"
      "s = a @ CHR ''.'' # b @ CHR ''.'' # c @ CHR ''.'' # d @ []"
      unfolding digit_quad_iff by auto
    moreover have "at_end []" by (simp add: at_end_def)
    ultimately show ?thesis
      unfolding validate_ipv4_def ipv4_re_match_iff by blast
  next
    case 2
    then obtain a b c d where g: "digit_group a" "digit_group b" "digit_group c" "digit_group d"
      and b: "butlast s = a @ CHR ''.'' # b @ CHR ''.'' # c @ CHR ''.'' # d"
      unfolding digit_quad_iff by auto
    from 2(1,2) have "s = butlast s @ ''\<newline>''"
      by (metis append_butlast_last_id)
    with b have "s = a @ CHR ''.'' # b @ CHR ''.'' # c @ CHR ''.'' # d @ ''\<newline>''"
      by simp
    moreover have "at_end ''\<newline>''" by (simp add: at_end_def)
    ultimately show ?thesis
      unfolding validate_ipv4_def ipv4_re_match_iff using g by blast
  qed
qed

lemma ipv4_from_file_valid:
  "ipv4_from_file fs p = Inr addrs \<Longrightarrow> v \<in> set addrs \<Longrightarrow> validate_ipv4 v"
  by (auto simp: ipv4_from_file_def valid_lines_def split: node.splits)

lemma add_lines_added:
  "v \<in> set (fst (snd (add_lines fs arg_val lst))) \<Longrightarrow> v \<in> set lst \<or> validate_ipv4 v"
proof (induction arg_val arbitrary: lst)
  case Nil
  then show ?case by simp
next
  case (Cons line arg_val)
  show ?case
  proof (cases "validate_ipv4 line")
    case True
    with Cons.prems have "v \<in> set (fst (snd (add_lines fs arg_val (lst @ [line]))))"
      by simp
    from Cons.IH [OF this] True show ?thesis by auto
  next
    case False
    show ?thesis
    proof (cases "path_exists fs line")
      case (Inl e)
      with False Cons.prems show ?thesis by simp
    next
      case (Inr found)
      show ?thesis
      proof (cases found)
        case False
        with \<open>\<not> validate_ipv4 line\<close> Inr Cons.prems
        have "v \<in> set (fst (snd (add_lines fs arg_val lst)))"
          by (simp add: case_prod_beta)
        from Cons.IH [OF this] show ?thesis .
      next
        case True
        show ?thesis
        proof (cases "ipv4_from_file fs line")
          case (Inl e)
          with True \<open>\<not> validate_ipv4 line\<close> Inr Cons.prems show ?thesis by simp
        next
          case r: (Inr addrs)
          with True \<open>\<not> validate_ipv4 line\<close> Inr Cons.prems
          have "v \<in> set (fst (snd (add_lines fs arg_val (lst @ addrs))))"
            by (simp add: case_prod_beta)
          from Cons.IH [OF this] ipv4_from_file_valid [OF r] show ?thesis by auto
        qed
      qed
    qed
  qed
qed

lemma global_values_added:
  "global_values fs vals values = (out, Inr r) \<Longrightarrow> v \<in> set r \<Longrightarrow>
   v \<in> set values \<or> validate_ipv4 v"
proof (induction fs vals "values" arbitrary: out rule: global_values.induct)
  case (1 fs "values")
  then show ?case by simp
next
  case (2 fs ival vals "values")
  show ?case
  proof (cases "validate_ipv4 ival")
    case True
    with "2.prems" have "global_values fs vals (values @ [ival]) = (out, Inr r)"
      by simp
    from "2.IH"(2) [OF _ this "2.prems"(2)] True show ?thesis by auto
  next
    case False
    with "2.prems"(1) obtain addrs out' where e: "path_exists fs ival = Inr True"
      and f: "ipv4_from_file fs ival = Inr addrs"
      and g: "global_values fs (vals @ addrs) values = (out', Inr r)"
      by (auto split: sum.splits if_splits prod.splits)
    from "2.IH"(1) [OF False e _ f g "2.prems"(2)] show ?thesis by simp
  qed
qed

lemma global_values_error:
  "global_values fs vals values = (out, Inl e) \<Longrightarrow>
   e = NameError ''line'' \<or> (\<exists>p. fs p = Unreadable e \<or> fs p = Unstattable e)"
proof (induction fs vals "values" arbitrary: out rule: global_values.induct)
  case (1 fs "values")
  then show ?case by simp
next
  case (2 fs ival vals "values")
  show ?case
  proof (cases "validate_ipv4 ival")
    case True
    with "2.prems" have "global_values fs vals (values @ [ival]) = (out, Inl e)"
      by simp
    from "2.IH"(2) [OF _ this] True show ?thesis by auto
  next
    case False
    show ?thesis
    proof (cases "fs ival")
      case Missing
      with False "2.prems" show ?thesis
        by (simp add: path_exists_def)
    next
      case (Regular lines)
      with False "2.prems" obtain out' where
        g: "global_values fs (vals @ valid_lines lines) values = (out', Inl e)"
        by (auto simp: path_exists_def ipv4_from_file_def split: prod.splits)
      from Regular have e: "path_exists fs ival = Inr True"
        and f: "ipv4_from_file fs ival = Inr (valid_lines lines)"
        by (simp_all add: path_exists_def ipv4_from_file_def)
      from "2.IH"(1) [OF False e _ f g] show ?thesis by simp
    next
      case (Unreadable x)
      with False "2.prems" show ?thesis
        by (auto simp: path_exists_def ipv4_from_file_def)
    next
      case (Unstattable x)
      with False "2.prems" show ?thesis
        by (auto simp: path_exists_def)
    qed
  qed
qed

section \<open>Concrete runs\<close>

lemma valid_10_0_0_5: "validate_ipv4 ''10.0.0.5''"
  by (simp add: validate_ipv4_def ipv4_re_match_def digits_1_3_def dot_group_def at_end_def
      is_digit_def)

lemma valid_192_168_1_10: "validate_ipv4 ''192.168.1.10''"
  by (simp add: validate_ipv4_def ipv4_re_match_def digits_1_3_def dot_group_def at_end_def
      is_digit_def)

lemma valid_10_0_0_7: "validate_ipv4 ''10.0.0.7''"
  by (simp add: validate_ipv4_def ipv4_re_match_def digits_1_3_def dot_group_def at_end_def
      is_digit_def)

lemma invalid_notanaddress: "\<not> validate_ipv4 ''notanaddress''"
  by (simp add: validate_ipv4_def ipv4_re_match_def digits_1_3_def dot_group_def at_end_def
      is_digit_def)

lemma invalid_allow_txt: "\<not> validate_ipv4 ''allow.txt''"
  by (simp add: validate_ipv4_def ipv4_re_match_def digits_1_3_def dot_group_def at_end_def
      is_digit_def)

lemma invalid_d: "\<not> validate_ipv4 ''d''"
  by (simp add: validate_ipv4_def ipv4_re_match_def digits_1_3_def dot_group_def at_end_def
      is_digit_def)

lemma valid_lines_example:
  "valid_lines [''10.0.0.7\<newline>'', ''notanaddress\<newline>''] = [''10.0.0.7'']"
  by (simp add: valid_lines_def strip_def is_space_def valid_10_0_0_7 invalid_notanaddress)

lemma build_lists_conflict:
  "build_lists (capture_defaults\<lparr>whitelist := Some [''192.168.1.10'', ''10.0.0.5'', ''10.0.0.5''],
      sender_blacklist := Some [''192.168.1.10'']\<rparr>) nothing =
   ([], Inr (\<lparr>white = [''10.0.0.5''], black = []\<rparr>,
             \<lparr>white = [''192.168.1.10'', ''10.0.0.5''], black = []\<rparr>))"
  by (simp add: build_lists_def populate_def populate_global_def add_global_def
      populate_args_def populate_arg_def capture_defaults_def new_Lists_def extend_list_def
      valid_10_0_0_5 valid_192_168_1_10 prevent_duplicates_def list_set_def delitem_def
      Let_def)

lemma build_lists_warning:
  "build_lists (analyze_defaults\<lparr>sender_whitelist := Some [''notanaddress'']\<rparr>) nothing =
     ([Print ''Invalid ipv4 address and unknown file, skipping: notanaddress''],
      Inr (\<lparr>white = [], black = []\<rparr>, \<lparr>white = [], black = []\<rparr>))"
  by (simp add: build_lists_def populate_def populate_global_def add_global_def
      analyze_defaults_def capture_defaults_def invalid_notanaddress populate_args_def
      populate_arg_def new_Lists_def prevent_duplicates_def list_set_def warning_def
      nothing_def path_exists_def Let_def)


lemma main_reads_file_first:
  "main (analyze_defaults\<lparr>sender_whitelist := Some [''allow.txt'']\<rparr>)
     (nothing(''allow.txt'' := Regular [''10.0.0.7\<newline>'', ''notanaddress\<newline>''])) =
   [OpenFile ''allow.txt'', Print ''- Analyze command requires at least one input file.'', Exit]"
  by (simp add: main_def check_columns_def COL_MAP_def COL_ORDER_def build_lists_def
      populate_def populate_global_def add_global_def analyze_defaults_def
      capture_defaults_def invalid_allow_txt populate_args_def populate_arg_def
      new_Lists_def prevent_duplicates_def list_set_def execute_def nothing_def
      path_exists_def ipv4_from_file_def valid_lines_example Let_def)

lemma main_directory:
  "main (analyze_defaults\<lparr>sender_whitelist := Some [''d'']\<rparr>)
     (nothing(''d'' := Unreadable (OSError ''IsADirectoryError''))) =
   [OpenFile ''d'', Raise (OSError ''IsADirectoryError'')]"
  by (simp add: main_def check_columns_def COL_MAP_def COL_ORDER_def build_lists_def
      populate_def populate_global_def add_global_def analyze_defaults_def
      capture_defaults_def invalid_d populate_args_def populate_arg_def
      new_Lists_def nothing_def path_exists_def ipv4_from_file_def Let_def)

section \<open>Properties of conflict resolution\<close>

lemma index_of_None: "index_of xs v = None \<longleftrightarrow> v \<notin> set xs"
  by (induction xs) auto

lemma index_of_Some: "index_of xs v = Some i \<Longrightarrow> i < length xs \<and> xs ! i = v"
  by (induction xs arbitrary: i) (auto split: if_splits)

lemma set_delitem: "set (delitem xs i) \<subseteq> set xs"
  unfolding delitem_def using set_take_subset [of i xs] set_drop_subset [of "Suc i" xs]
  by auto

lemma take_delitem: "take c (delitem w c) = take c w"
  by (simp add: delitem_def min_def)

lemma prevent_loop_disjoint:
  "prevent_loop counter w b = (w', b') \<Longrightarrow> set (take counter w) \<inter> set b = {} \<Longrightarrow>
   set w' \<inter> set b' = {}"
proof (induction counter w b rule: prevent_loop.induct)
  case (1 counter w b)
  show ?case
  proof (cases "counter < length w")
    case False
    with "1.prems" show ?thesis by simp
  next
    case True
    show ?thesis
    proof (cases "index_of b (w ! counter)")
      case None
      then have "w ! counter \<notin> set b"
        by (simp add: index_of_None)
      with "1.prems"(2) True have "set (take (counter + 1) w) \<inter> set b = {}"
        by (simp add: take_Suc_conv_app_nth)
      moreover from "1.prems"(1) True None have "prevent_loop (counter + 1) w b = (w', b')"
        by simp
      ultimately show ?thesis
        using "1.IH"(1) [OF True None] by blast
    next
      case (Some ind)
      from "1.prems"(2) set_delitem [of b ind]
      have "set (take counter (delitem w counter)) \<inter> set (delitem b ind) = {}"
        unfolding take_delitem by blast
      moreover from "1.prems"(1) True Some
      have "prevent_loop counter (delitem w counter) (delitem b ind) = (w', b')"
        by simp
      ultimately show ?thesis
        using "1.IH"(2) [OF True Some] by blast
    qed
  qed
qed

lemma prevent_duplicates_invariant:
  "set (white (prevent_duplicates var)) \<inter> set (black (prevent_duplicates var)) = {} \<and>
   distinct (white (prevent_duplicates var)) \<and> distinct (black (prevent_duplicates var))"
proof -
  obtain w b where wb: "prevent_loop 0 (white var) (black var) = (w, b)"
    by (cases "prevent_loop 0 (white var) (black var)")
  from prevent_loop_disjoint [OF wb] have "set w \<inter> set b = {}"
    by simp
  with wb show ?thesis
    by (simp add: prevent_duplicates_def list_set_def)
qed

section \<open>Properties of the script\<close>

lemma check_columns_None:
  "check_columns cols = None \<longleftrightarrow> cols \<noteq> [] \<and> set cols \<subseteq> set (map fst COL_MAP)"
  by (auto simp: check_columns_def Let_def filter_empty_conv)

lemma check_columns_stop:
  "cols = [] \<or> \<not> set cols \<subseteq> set (map fst COL_MAP) \<Longrightarrow>
   check_columns cols =
     Some (if cols = [] then
             [Print ''- Output columns are required'', Print ''Exiting!'', Exit]
           else
             [print2 ''- Invalid column values provided: ''
                (join '','' (filter (\<lambda>v. v \<notin> set (map fst COL_MAP)) cols)),
              print2 ''- Valid values: '' (join '','' (map fst COL_MAP)),
              Print ''Exiting!'', Exit])"
  by (auto simp: check_columns_def Let_def filter_empty_conv)

lemma add_lines_events: "list_all populating (fst (add_lines fs arg_val lst))"
  by (induction arg_val arbitrary: lst)
     (auto simp: populating_def warning_def case_prod_beta split: sum.splits)

lemma global_values_events: "list_all populating (fst (global_values fs vals values))"
  by (induction fs vals "values" rule: global_values.induct)
     (auto simp: populating_def case_prod_beta split: sum.splits)

lemma add_global_events:
  "list_all populating (fst st) \<Longrightarrow>
   list_all populating (fst (add_global list_type vals fs st))"
  using global_values_events [of fs "the vals" "[]"]
  by (auto simp: add_global_def split: prod.splits sum.splits option.splits)

lemma populate_arg_events:
  assumes "list_all populating (fst st)"
  shows "list_all populating (fst (populate_arg is_sender list_type arg_val fs st))"
proof (cases st)
  case (Pair out r)
  show ?thesis
  proof (cases r)
    case (Inl e)
    with Pair assms show ?thesis
      by (simp add: populate_arg_def)
  next
    case (Inr ls)
    obtain s t where ls: "ls = (s, t)"
      by (cases ls)
    show ?thesis
    proof (cases arg_val)
      case None
      with Pair Inr ls assms show ?thesis
        by (simp add: populate_arg_def)
    next
      case (Some vs)
      show ?thesis
      proof (cases "vs = []")
        case True
        with Some Pair Inr ls assms show ?thesis
          by (simp add: populate_arg_def)
      next
        case False
        define lst where "lst = (if list_type = ''white''
          then white (if is_sender then s else t) else black (if is_sender then s else t))"
        obtain out' lst' err where a: "add_lines fs vs lst = (out', lst', err)"
          by (cases "add_lines fs vs lst")
        with add_lines_events [of fs vs lst] have o: "list_all populating out'"
          by simp
        have "fst (populate_arg is_sender list_type arg_val fs st) = out @ out'"
          unfolding populate_arg_def Pair Inr ls Some
          using False a [unfolded lst_def]
          by (cases err) (simp_all add: Let_def)
        with o assms Pair show ?thesis
          by simp
      qed
    qed
  qed
qed

lemma build_lists_events: "list_all populating (fst (build_lists a fs))"
proof -
  have "list_all populating (fst (populate a fs))"
    unfolding populate_def populate_args_def populate_global_def
    by (intro populate_arg_events add_global_events) simp
  then show ?thesis
    by (auto simp: build_lists_def split: prod.splits sum.splits)
qed

lemma populating_not_ingesting: "list_all populating out \<Longrightarrow> \<not> list_ex ingesting out"
  by (induction out) (auto simp: populating_def ingesting_def split: event.splits)

lemma build_lists_resolved:
  "build_lists a fs = (out, Inr (s_lists, t_lists)) \<Longrightarrow>
   \<exists>s t. s_lists = prevent_duplicates s \<and> t_lists = prevent_duplicates t"
  by (auto simp: build_lists_def split: prod.splits sum.splits)

lemma check_columns_shape:
  "check_columns cols = Some stop \<Longrightarrow>
   list_all is_print (butlast stop) \<and> last stop = Exit \<and> \<not> list_ex processing stop"
  by (auto simp: check_columns_def Let_def is_print_def print2_def processing_def
      ingesting_def split: if_splits)

lemma ingesting_processing: "ingesting e \<Longrightarrow> processing e"
  by (cases e) (simp_all add: processing_def)

lemma not_processing_not_ingesting: "\<not> list_ex processing run \<Longrightarrow> \<not> list_ex ingesting run"
  unfolding list_ex_iff by (blast intro: ingesting_processing)

lemma not_ingesting_simps:
  "\<not> ingesting (Raise e)" "\<not> ingesting (Print s)" "\<not> ingesting Exit"
  by (simp_all add: ingesting_def)

section \<open>Properties of the table\<close>

lemma first_occurrences_snoc:
  "first_occurrences (xs @ [x]) =
     (if x \<in> set xs then first_occurrences xs else first_occurrences xs @ [x])"
  by (simp add: first_occurrences_def)

lemma set_first_occurrences [simp]: "set (first_occurrences xs) = set xs"
  by (simp add: first_occurrences_def)

lemma distinct_first_occurrences [simp]: "distinct (first_occurrences xs)"
  by (simp add: first_occurrences_def)

lemma map_fst_groups:
  "map fst (groups fm cp columns ts) = first_occurrences (map (\<lambda>t. value (sender t)) ts)"
  by (simp add: groups_def comp_def)

lemma sender_group_snoc:
  "sender_group fm cp columns s (ts @ [t]) =
     (if value (sender t) = s then
        (if s \<in> set (map (\<lambda>t. value (sender t)) ts)
         then sender_group fm cp columns s ts @ [map (build_cell fm cp t False) columns]
         else [map (build_cell fm cp t True) columns])
      else sender_group fm cp columns s ts)"
proof (cases "filter (\<lambda>t. value (sender t) = s) ts")
  case Nil
  then have "s \<notin> set (map (\<lambda>t. value (sender t)) ts)"
    by (auto simp: filter_empty_conv)
  with Nil show ?thesis
    by (simp add: sender_group_def)
next
  case (Cons u us)
  then have "u \<in> set (filter (\<lambda>t. value (sender t) = s) ts)"
    by simp
  then have "u \<in> set ts \<and> value (sender u) = s"
    by simp
  then have "s \<in> set (map (\<lambda>t. value (sender t)) ts)"
    by force
  with Cons show ?thesis
    by (simp add: sender_group_def)
qed

lemma groups_snoc_new:
  assumes "value (sender t) \<notin> set (map (\<lambda>t. value (sender t)) ts)"
  shows "groups fm cp columns (ts @ [t]) =
     groups fm cp columns ts @ [(value (sender t), [map (build_cell fm cp t True) columns])]"
proof -
  have "map (\<lambda>s. (s, sender_group fm cp columns s (ts @ [t])))
          (first_occurrences (map (\<lambda>t. value (sender t)) ts)) =
        map (\<lambda>s. (s, sender_group fm cp columns s ts))
          (first_occurrences (map (\<lambda>t. value (sender t)) ts))"
    using assms by (intro map_cong refl) (auto simp: sender_group_snoc)
  with assms show ?thesis
    by (simp add: groups_def first_occurrences_snoc sender_group_snoc)
qed

lemma groups_snoc_old:
  assumes "value (sender t) \<in> set (map (\<lambda>t. value (sender t)) ts)"
  shows "groups fm cp columns (ts @ [t]) =
     append_row (groups fm cp columns ts) (value (sender t))
       (map (build_cell fm cp t False) columns)"
  using assms
  by (auto simp: groups_def first_occurrences_snoc append_row_def sender_group_snoc)

lemma organize_groups:
  "organize fm sender_lists target_lists cp columns ts (groups fm cp columns pre) =
     groups fm cp columns (pre @ filter (accepted sender_lists target_lists) ts)"
proof (induction ts arbitrary: pre)
  case Nil
  then show ?case by simp
next
  case (Cons t ts)
  show ?case
  proof (cases "accepted sender_lists target_lists t")
    case False
    then show ?thesis
      using Cons.IH [of pre] by (auto simp: accepted_def)
  next
    case True
    then have r: "\<not> rejected sender_lists (value (sender t))"
      "\<not> rejected target_lists (value (target t))"
      by (simp_all add: accepted_def)
    show ?thesis
    proof (cases "value (sender t) \<in> set (map (\<lambda>t. value (sender t)) pre)")
      case old: True
      with True r show ?thesis
        using Cons.IH [of "pre @ [t]"]
        by (simp add: map_fst_groups groups_snoc_old [OF old] Let_def)
    next
      case new: False
      with True r show ?thesis
        using Cons.IH [of "pre @ [t]"]
        by (simp add: map_fst_groups groups_snoc_new [OF new] Let_def)
    qed
  qed
qed

lemma restructure_concat:
  "restructure cp items counter rows =
     rows @ concat (map (\<lambda>(i, g). styled cp (Suc i) (snd g)) (enumerate counter items))"
  by (induction items arbitrary: counter rows) (auto simp: styled_def split: option.splits)

lemma headers_of_valid:
  "set columns \<subseteq> set (map fst COL_MAP) \<Longrightarrow>
   headers_of columns = Inr (map (\<lambda>col. the (map_of COL_MAP col)) columns)"
proof (induction columns)
  case Nil
  then show ?case by simp
next
  case (Cons col columns)
  then obtain h where "map_of COL_MAP col = Some h"
    by (metis list.set_intros(1) map_of_eq_None_iff not_Some_eq subsetD set_map)
  with Cons show ?case by simp
qed

lemma groups_Nil [simp]: "groups fm cp columns [] = []"
  by (simp add: groups_def first_occurrences_def)

lemma get_output_table:
  assumes "transactions \<noteq> []" and "set columns \<subseteq> set (map fst COL_MAP)"
  shows "get_output fm transactions sender_lists target_lists cp columns =
     Inr (Table
       ((case cp of Some p \<Rightarrow> style_header p | None \<Rightarrow> (\<lambda>hs. hs))
          (map (\<lambda>col. the (map_of COL_MAP col)) columns))
       (grouped_rows fm cp columns (filter (accepted sender_lists target_lists) transactions)))"
  using assms organize_groups [of fm sender_lists target_lists cp columns transactions "[]"]
  by (simp add: get_output_def headers_of_valid restructure_concat grouped_rows_def Let_def
      split: option.splits)

lemma sender_group_cells:
  assumes "s \<in> set (map (\<lambda>t. value (sender t)) ts)"
  shows "sender_group fm cp columns s ts \<noteq> [] \<and>
     length (sender_group fm cp columns s ts) = length (filter (\<lambda>t. value (sender t) = s) ts) \<and>
     (\<forall>i < length columns. columns ! i = ''sender'' \<longrightarrow>
        hd (sender_group fm cp columns s ts) ! i = s \<and>
        (\<forall>r \<in> set (tl (sender_group fm cp columns s ts)). r ! i = ''''))"
proof -
  from assms have "filter (\<lambda>t. value (sender t) = s) ts \<noteq> []"
    by (auto simp: filter_empty_conv)
  then obtain t rest where f: "filter (\<lambda>t. value (sender t) = s) ts = t # rest"
    by (cases "filter (\<lambda>t. value (sender t) = s) ts") auto
  then have "t \<in> set (filter (\<lambda>t. value (sender t) = s) ts)"
    by simp
  then have t: "value (sender t) = s"
    by simp
  from f have g: "sender_group fm cp columns s ts =
      map (build_cell fm cp t True) columns #
      map (\<lambda>u. map (build_cell fm cp u False) columns) rest"
    by (simp add: sender_group_def)
  show ?thesis
    unfolding g using t f by (auto simp: build_cell_def)
qed

lemma get_output_three_rows:
  "get_output example_formatters example_transactions None None None [''sender'', ''target''] =
     Inr (Table [''Sender'', ''Target'']
            [[''10.0.0.5'', ''10.0.0.9''], ['''', ''10.0.0.7''], [''10.0.0.6'', ''10.0.0.9'']])"
  by (simp add: get_output_def example_transactions_def example_formatters_def
      new_transaction_def new_host_def rejected_def build_cell_def append_row_def COL_MAP_def
      Let_def)

lemma get_output_rows:
  assumes "get_output fm transactions sender_lists target_lists cp columns =
             Inr (Table headers rows)"
  shows "rows = grouped_rows fm cp columns
                  (filter (accepted sender_lists target_lists) transactions)"
proof -
  from assms have "transactions \<noteq> []"
    by (auto simp: get_output_def)
  with assms have "rows =
      restructure cp (organize fm sender_lists target_lists cp columns transactions []) 0 []"
    by (auto simp: get_output_def Let_def split: sum.splits)
  with organize_groups [of fm sender_lists target_lists cp columns transactions "[]"]
  show ?thesis
    by (simp add: restructure_concat grouped_rows_def)
qed

lemma length_styled [simp]: "length (styled cp n irows) = length irows"
  by (simp add: styled_def split: option.splits)

lemma length_concat_styled:
  "length (concat (map (\<lambda>(i, g). styled cp (Suc i) (snd g)) (enumerate n gs))) =
   sum_list (map (\<lambda>g. length (snd g)) gs)"
  by (induction gs arbitrary: n) simp_all

lemma append_row_absent: "k \<notin> set (map fst gs) \<Longrightarrow> append_row gs k row = gs"
  by (induction gs) (auto simp: append_row_def)

lemma append_row_total:
  "distinct (map fst gs) \<Longrightarrow> k \<in> set (map fst gs) \<Longrightarrow>
   sum_list (map (\<lambda>g. length (snd g)) (append_row gs k row)) =
   Suc (sum_list (map (\<lambda>g. length (snd g)) gs))"
proof (induction gs)
  case Nil
  then show ?case by simp
next
  case (Cons g gs)
  obtain k' rs where g: "g = (k', rs)"
    by (cases g)
  show ?case
  proof (cases "k' = k")
    case True
    with Cons.prems g have "k \<notin> set (map fst gs)"
      by simp
    then have "append_row gs k row = gs"
      by (rule append_row_absent)
    then have "append_row (g # gs) k row = (k, rs @ [row]) # gs"
      using True g by (simp add: append_row_def)
    with g show ?thesis by simp
  next
    case False
    with Cons.prems g have "k \<in> set (map fst gs)" "distinct (map fst gs)"
      by auto
    from Cons.IH [OF this(2) this(1)] False g show ?thesis
      by (simp add: append_row_def)
  qed
qed

lemma groups_total:
  "sum_list (map (\<lambda>g. length (snd g)) (groups fm cp columns ts)) = length ts"
proof (induction ts rule: rev_induct)
  case Nil
  then show ?case by simp
next
  case (snoc t ts)
  show ?case
  proof (cases "value (sender t) \<in> set (map (\<lambda>t. value (sender t)) ts)")
    case True
    have "distinct (map fst (groups fm cp columns ts))"
      and "value (sender t) \<in> set (map fst (groups fm cp columns ts))"
      using True by (simp_all add: map_fst_groups)
    from append_row_total [OF this] snoc show ?thesis
      by (simp add: groups_snoc_old [OF True])
  next
    case False
    with snoc show ?thesis
      by (simp add: groups_snoc_new [OF False])
  qed
qed

lemma length_grouped_rows: "length (grouped_rows fm cp columns ts) = length ts"
  by (simp add: grouped_rows_def length_concat_styled groups_total)

lemma get_output_blacklisted:
  "get_output example_formatters example_transactions
      (Some \<lparr>white = [], black = [''10.0.0.5'']\<rparr>) (Some \<lparr>white = [], black = []\<rparr>) None
      [''sender'', ''target''] =
     Inr (Table [''Sender'', ''Target''] [[''10.0.0.6'', ''10.0.0.9'']])"
  by (simp add: get_output_def example_transactions_def example_formatters_def
      new_transaction_def new_host_def rejected_def check_def build_cell_def append_row_def
      COL_MAP_def Let_def)

section \<open>Properties of the resolver model\<close>

lemma enrich_new:
  "enriched r cfg target_ip (enrich r cfg (new_transaction sender_ip sender_mac target_ip ts))"
  by (cases "reverse_lookup r target_ip")
     (auto simp: enriched_def enrich_def resolve_names_def new_transaction_def new_host_def
       anomaly_def Let_def)

lemma enrich_again: "enriched r cfg ip t \<Longrightarrow> enriched r cfg ip (enrich r cfg t)"
  by (cases "reverse_lookup r ip")
     (auto simp: enriched_def enrich_def resolve_names_def anomaly_def Let_def
       split: option.splits)

lemma enrich_repeated:
  "enriched r cfg target_ip
     ((enrich r cfg ^^ Suc n) (new_transaction sender_ip sender_mac target_ip ts))"
proof (induction n)
  case 0
  show ?case using enrich_new [of r cfg target_ip sender_ip sender_mac ts] by simp
next
  case (Suc n)
  from enrich_again [OF Suc] show ?case by simp
qed


section \<open>Claims\<close>

subsection \<open>C6: what \<^verbatim>\<open>validate_ipv4\<close> accepts\<close>

text \<open>
  C6, as the specification states it: \<^verbatim>\<open>validate_ipv4\<close> accepts a value if and only if it
  is a strict dotted quad, four dot-separated decimal octets each in the range 0--255.
  The pattern checks the shape only: \<^verbatim>\<open>999.999.999.999\<close> is accepted although no octet
  of it is in range.
\<close>

theorem validate_ipv4_range_counterexample:
  "validate_ipv4 ''999.999.999.999'' \<and> \<not> strict_dotted_quad ''999.999.999.999''"
  by (simp add: validate_ipv4_def ipv4_re_match_def digits_1_3_def dot_group_def at_end_def
      is_digit_def strict_dotted_quad_def octet_def digit_group_def)

text \<open>
  C6, amended: \<^verbatim>\<open>validate_ipv4\<close> accepts a value if and only if it consists of four
  dot-separated groups of one to three decimal digits each (of any value), optionally
  followed by one final line feed; and every value that list population adds to a list,
  as a literal argument or from a file, satisfies this pattern.
\<close>

theorem validate_ipv4_digit_groups:
  "(validate_ipv4 val \<longleftrightarrow> ipv4_pattern val) \<and>
   (\<forall>v \<in> set (fst (snd (add_lines fs arg_val lst))). v \<in> set lst \<or> ipv4_pattern v) \<and>
   (\<forall>out r. global_values fs vals [] = (out, Inr r) \<longrightarrow> list_all ipv4_pattern r)"
proof (intro conjI allI impI ballI)
  show "validate_ipv4 val \<longleftrightarrow> ipv4_pattern val"
    by (rule validate_ipv4_pattern)
next
  fix v assume "v \<in> set (fst (snd (add_lines fs arg_val lst)))"
  from add_lines_added [OF this] show "v \<in> set lst \<or> ipv4_pattern v"
    by (simp add: validate_ipv4_pattern)
next
  fix out r assume "global_values fs vals [] = (out, Inr r)"
  from global_values_added [OF this] show "list_all ipv4_pattern r"
    unfolding list_all_iff by (auto simp: validate_ipv4_pattern)
qed

theorem validate_ipv4_digit_groups_witness:
  "validate_ipv4 ''10.0.0.5'' \<and> ipv4_pattern ''10.0.0.5'' \<and>
   fst (snd (add_lines nothing [''10.0.0.5''] [])) = [''10.0.0.5''] \<and>
   global_values nothing [''10.0.0.5''] [] = ([], Inr [''10.0.0.5''])"
  using validate_ipv4_digit_groups [of "''10.0.0.5''" nothing "[''10.0.0.5'']" "[]" "[''10.0.0.5'']"]
    valid_10_0_0_5
  by simp


subsection \<open>C1: the lists after conflict resolution\<close>

text \<open>
  C1: when population and conflict resolution complete, then in each of the two lists
  objects (sender_lists and target_lists) the white list and the black list share no
  value and neither holds a value twice, whatever literal addresses and files the
  allow/deny arguments supplied.
\<close>

theorem lists_disjoint_distinct:
  assumes "build_lists a fs = (out, Inr (s_lists, t_lists))"
  shows "set (white s_lists) \<inter> set (black s_lists) = {} \<and>
         distinct (white s_lists) \<and> distinct (black s_lists) \<and>
         set (white t_lists) \<inter> set (black t_lists) = {} \<and>
         distinct (white t_lists) \<and> distinct (black t_lists)"
proof -
  from build_lists_resolved [OF assms]
  obtain s t where "s_lists = prevent_duplicates s" "t_lists = prevent_duplicates t"
    by blast
  then show ?thesis
    using prevent_duplicates_invariant [of s] prevent_duplicates_invariant [of t] by simp
qed

theorem lists_disjoint_distinct_witness:
  "build_lists (capture_defaults\<lparr>whitelist := Some [''192.168.1.10'', ''10.0.0.5'', ''10.0.0.5''],
      sender_blacklist := Some [''192.168.1.10'']\<rparr>) nothing =
   ([], Inr (\<lparr>white = [''10.0.0.5''], black = []\<rparr>,
             \<lparr>white = [''192.168.1.10'', ''10.0.0.5''], black = []\<rparr>)) \<and>
   set [''10.0.0.5''] \<inter> set ([] :: string list) = {} \<and> distinct [''10.0.0.5''] \<and>
   set [''192.168.1.10'', ''10.0.0.5''] \<inter> set ([] :: string list) = {} \<and>
   distinct [''192.168.1.10'', ''10.0.0.5'']"
  using lists_disjoint_distinct [OF build_lists_conflict] build_lists_conflict
  by simp


subsection \<open>C9: the global lists and both objects\<close>

text \<open>
  C9 says that every valid address supplied to the global whitelist (or blacklist)
  argument is added to the white (or black) list of both sender_lists and target_lists
  before conflict resolution runs. In the run below the global whitelist holds the valid
  address \<^verbatim>\<open>10.0.0.5\<close> and, after it, a value that is neither an address nor a file: the
  loop collects the address in \<^verbatim>\<open>values\<close>, then the message of line 459 raises
  \<^verbatim>\<open>NameError\<close> (see C2) before line 468 extends any list, and the run ends with no list
  holding the address.
\<close>

theorem global_list_loses_valid_address:
  "validate_ipv4 ''10.0.0.5'' \<and>
   populate (capture_defaults\<lparr>whitelist := Some [''10.0.0.5'', ''notanaddress'']\<rparr>) nothing =
     ([], Inl (NameError ''line'')) \<and>
   main (capture_defaults\<lparr>whitelist := Some [''10.0.0.5'', ''notanaddress'']\<rparr>) nothing =
     [Raise (NameError ''line'')]"
  by (simp add: main_def check_columns_def COL_MAP_def COL_ORDER_def build_lists_def
      populate_def populate_global_def add_global_def capture_defaults_def
      invalid_notanaddress valid_10_0_0_5 populate_args_def populate_arg_def new_Lists_def
      nothing_def path_exists_def Let_def)

subsection \<open>C2: values that are neither an address nor a file\<close>

text \<open>
  C2 says that such a value is skipped with a warning and the run goes on, for the global
  arguments as for the sender and target arguments. The run below has one such value in
  the global whitelist: it ends with \<^verbatim>\<open>NameError\<close> and prints no warning, because the
  message of line 459 names the variable of the later loop. The same value in the sender
  whitelist is skipped with the warning, and the capture starts.
\<close>

theorem global_list_invalid_value_raises:
  "main (capture_defaults\<lparr>whitelist := Some [''notanaddress'']\<rparr>) nothing =
     [Raise (NameError ''line'')] \<and>
   main (capture_defaults\<lparr>sender_whitelist := Some [''notanaddress'']\<rparr>) nothing =
     [Print ''Invalid ipv4 address and unknown file, skipping: notanaddress'',
      CallCapture \<lparr>white = [], black = []\<rparr> \<lparr>white = [], black = []\<rparr>]"
  by (simp add: main_def check_columns_def COL_MAP_def COL_ORDER_def build_lists_def
      populate_def populate_global_def add_global_def capture_defaults_def
      invalid_notanaddress populate_args_def populate_arg_def new_Lists_def
      prevent_duplicates_def list_set_def warning_def execute_def nothing_def
      path_exists_def Let_def)


subsection \<open>C4: the column check\<close>

text \<open>
  C4: if the parsed arguments carry an \<^verbatim>\<open>output_columns\<close> value that is empty or holds a
  name that is no key of \<^verbatim>\<open>COL_MAP\<close>, the run consists of the diagnostic and the exit:
  no list is populated, nothing is ingested or rendered, and the file system is not
  read. (A namespace without a command has no such value in practice; the script then
  prints the help and exits.)
\<close>

theorem invalid_columns_exit:
  assumes "output_columns a = Some cols"
    and "cols = [] \<or> \<not> set cols \<subseteq> set (map fst COL_MAP)"
  shows "main a fs =
     (if cmd a = None then [PrintHelp, Exit]
      else if cols = [] then
        [Print ''- Output columns are required'', Print ''Exiting!'', Exit]
      else
        [print2 ''- Invalid column values provided: ''
           (join '','' (filter (\<lambda>v. v \<notin> set (map fst COL_MAP)) cols)),
         print2 ''- Valid values: '' (join '','' (map fst COL_MAP)),
         Print ''Exiting!'', Exit])"
proof (cases "cmd a")
  case None
  then show ?thesis by (simp add: main_def)
next
  case (Some c)
  with assms(1) have "main a fs = the (check_columns cols)"
    using check_columns_stop [OF assms(2)] by (simp add: main_def)
  with Some show ?thesis
    by (simp add: check_columns_stop [OF assms(2)])
qed

theorem invalid_columns_exit_witness:
  "output_columns (analyze_defaults\<lparr>output_columns := Some [''sender'', ''bogus'']\<rparr>) =
     Some [''sender'', ''bogus''] \<and>
   \<not> set [''sender'', ''bogus''] \<subseteq> set (map fst COL_MAP) \<and>
   main (analyze_defaults\<lparr>output_columns := Some [''sender'', ''bogus'']\<rparr>) nothing =
     [Print ''- Invalid column values provided:  bogus'',
      Print (''- Valid values:  arp_count,sender,sender_mac,target,target_mac,stale,'' @
             ''sender_ptr,target_ptr,mitm_op''),
      Print ''Exiting!'', Exit]"
  using invalid_columns_exit [of "analyze_defaults\<lparr>output_columns := Some [''sender'', ''bogus'']\<rparr>"
      "[''sender'', ''bogus'']" nothing]
  by (simp add: analyze_defaults_def capture_defaults_def COL_MAP_def print2_def)

subsection \<open>C5: analyze without an input file\<close>

text \<open>
  C5, as the specification states it: in analyze mode, if neither a pcap file nor an
  sqlite file is supplied, the program prints a diagnostic and terminates before any
  processing begins. The input check is at line 565, after list population: in the first
  run below the address file of the sender whitelist is read before the diagnostic is
  printed, and in the second the path is a directory, so that reading it raises and the
  diagnostic is never printed.
\<close>

theorem analyze_check_after_population_counterexample:
  "cmd (analyze_defaults\<lparr>sender_whitelist := Some [''allow.txt'']\<rparr>) = Some ''analyze'' \<and>
   pcap_files (analyze_defaults\<lparr>sender_whitelist := Some [''allow.txt'']\<rparr>) = [] \<and>
   sqlite_files (analyze_defaults\<lparr>sender_whitelist := Some [''allow.txt'']\<rparr>) = [] \<and>
   main (analyze_defaults\<lparr>sender_whitelist := Some [''allow.txt'']\<rparr>)
     (nothing(''allow.txt'' := Regular [''10.0.0.7\<newline>'', ''notanaddress\<newline>''])) =
     [OpenFile ''allow.txt'', Print ''- Analyze command requires at least one input file.'',
      Exit] \<and>
   \<not> diagnosed_exit
       (main (analyze_defaults\<lparr>sender_whitelist := Some [''allow.txt'']\<rparr>)
          (nothing(''allow.txt'' := Regular [''10.0.0.7\<newline>'', ''notanaddress\<newline>'']))) \<and>
   main (analyze_defaults\<lparr>sender_whitelist := Some [''d'']\<rparr>)
     (nothing(''d'' := Unreadable (OSError ''IsADirectoryError''))) =
     [OpenFile ''d'', Raise (OSError ''IsADirectoryError'')] \<and>
   \<not> diagnosed_exit
       (main (analyze_defaults\<lparr>sender_whitelist := Some [''d'']\<rparr>)
          (nothing(''d'' := Unreadable (OSError ''IsADirectoryError''))))"
  unfolding main_reads_file_first main_directory
  by (simp add: analyze_defaults_def capture_defaults_def diagnosed_exit_def is_print_def)

text \<open>
  C5, amended: in analyze mode, if neither a pcap file nor an sqlite file is supplied,
  the program starts no ingestion, no capture and no rendering. List population runs
  before the input check and may print warnings and read address files; when it
  completes, and the column selection is valid, the run is the events of list
  population, then the diagnostic of the missing input, then the exit.
\<close>

theorem analyze_requires_input:
  assumes "cmd a = Some ''analyze''" and "pcap_files a = []" and "sqlite_files a = []"
  shows "\<not> list_ex ingesting (main a fs) \<and>
     (\<forall>cols out s_lists t_lists.
        output_columns a = Some cols \<and> cols \<noteq> [] \<and> set cols \<subseteq> set (map fst COL_MAP) \<and>
        build_lists a fs = (out, Inr (s_lists, t_lists)) \<longrightarrow>
        list_all populating out \<and>
        main a fs = out @ [Print ''- Analyze command requires at least one input file.'', Exit])"
proof (intro conjI allI impI)
  show "\<not> list_ex ingesting (main a fs)"
  proof (cases "case output_columns a of None \<Rightarrow> None | Some cols \<Rightarrow> check_columns cols")
    case (Some stop)
    then obtain cols where "check_columns cols = Some stop"
      by (cases "output_columns a") simp_all
    from check_columns_shape [OF this] have "\<not> list_ex processing stop"
      by simp
    then have "\<not> list_ex ingesting stop"
      by (rule not_processing_not_ingesting)
    moreover from Some assms(1) have "main a fs = stop"
      by (simp add: main_def)
    ultimately show ?thesis
      by simp
  next
    case None
    obtain out r where b: "build_lists a fs = (out, r)"
      by (cases "build_lists a fs")
    with build_lists_events [of a fs] have o: "\<not> list_ex ingesting out"
      by (simp add: populating_not_ingesting)
    show ?thesis
    proof (cases r)
      case (Inl e)
      with None b assms(1) have "main a fs = out @ [Raise e]"
        by (simp add: main_def)
      with o show ?thesis
        by (simp add: not_ingesting_simps)
    next
      case (Inr ls)
      obtain s t where "ls = (s, t)"
        by (cases ls)
      with Inr None b assms have "main a fs =
          out @ [Print ''- Analyze command requires at least one input file.'', Exit]"
        by (simp add: main_def execute_def)
      with o show ?thesis
        by (simp add: not_ingesting_simps)
    qed
  qed
next
  fix cols out s_lists t_lists
  assume h: "output_columns a = Some cols \<and> cols \<noteq> [] \<and> set cols \<subseteq> set (map fst COL_MAP) \<and>
        build_lists a fs = (out, Inr (s_lists, t_lists))"
  with build_lists_events [of a fs] show "list_all populating out"
    by simp
  from h have "check_columns cols = None"
    by (simp add: check_columns_None)
  with h assms
  show "main a fs = out @ [Print ''- Analyze command requires at least one input file.'', Exit]"
    by (simp add: main_def execute_def)
qed

theorem analyze_requires_input_witness:
  "cmd (analyze_defaults\<lparr>sender_whitelist := Some [''notanaddress'']\<rparr>) = Some ''analyze'' \<and>
   pcap_files (analyze_defaults\<lparr>sender_whitelist := Some [''notanaddress'']\<rparr>) = [] \<and>
   sqlite_files (analyze_defaults\<lparr>sender_whitelist := Some [''notanaddress'']\<rparr>) = [] \<and>
   main (analyze_defaults\<lparr>sender_whitelist := Some [''notanaddress'']\<rparr>) nothing =
     [Print ''Invalid ipv4 address and unknown file, skipping: notanaddress'',
      Print ''- Analyze command requires at least one input file.'', Exit]"
proof -
  let ?a = "analyze_defaults\<lparr>sender_whitelist := Some [''notanaddress'']\<rparr>"
  have a: "cmd ?a = Some ''analyze''" "pcap_files ?a = []" "sqlite_files ?a = []"
    by (simp_all add: analyze_defaults_def capture_defaults_def)
  have c: "output_columns ?a = Some COL_ORDER" "COL_ORDER \<noteq> []"
    "set COL_ORDER \<subseteq> set (map fst COL_MAP)"
    by (simp_all add: analyze_defaults_def capture_defaults_def COL_ORDER_def COL_MAP_def)
  from analyze_requires_input [OF a, of nothing] c build_lists_warning a
  show ?thesis
    by simp
qed

subsection \<open>C7: no transactions\<close>

text \<open>
  C7: when \<^verbatim>\<open>get_transactions\<close> returns no transactions, \<^verbatim>\<open>get_output\<close> returns the
  message that no accepted ARP requests were captured and that the whitelist/blacklist
  configuration should be checked; it returns no table and raises no error.
\<close>

theorem get_output_empty:
  "get_output fm [] sender_lists target_lists cp columns =
     Inr (Message (''- No accepted ARP requests captured\<newline>'' @
                   ''- If this is unexpected, check your whitelist/blacklist configuration''))"
  by (simp add: get_output_def no_requests_def)


subsection \<open>C8: headers and grouping\<close>

text \<open>
  C8: for a selection of valid columns and at least one transaction, \<^verbatim>\<open>get_output\<close>
  renders one header for each requested column, \<^verbatim>\<open>COL_MAP[col]\<close>, in the order requested,
  and the data rows group after group: one group for each distinct sender, in the order
  of the senders' first transactions, each group holding one row for each accepted
  transaction of its sender, consecutively; in the column \<^verbatim>\<open>sender\<close> the first row of a
  group holds the sender and the later rows of the group hold the empty string. A
  colour profile, when given, styles the headers and each group's rows; this is the
  content it is given.
\<close>

theorem get_output_headers_and_groups:
  assumes "transactions \<noteq> []" and "set columns \<subseteq> set (map fst COL_MAP)"
  shows "get_output fm transactions sender_lists target_lists cp columns =
     Inr (Table
       ((case cp of Some p \<Rightarrow> style_header p | None \<Rightarrow> (\<lambda>hs. hs))
          (map (\<lambda>col. the (map_of COL_MAP col)) columns))
       (grouped_rows fm cp columns (filter (accepted sender_lists target_lists) transactions))) \<and>
     distinct (map fst
       (groups fm cp columns (filter (accepted sender_lists target_lists) transactions))) \<and>
     (\<forall>g \<in> set (groups fm cp columns (filter (accepted sender_lists target_lists) transactions)).
        snd g \<noteq> [] \<and>
        length (snd g) =
          length (filter (\<lambda>t. value (sender t) = fst g)
            (filter (accepted sender_lists target_lists) transactions)) \<and>
        (\<forall>i < length columns. columns ! i = ''sender'' \<longrightarrow>
           hd (snd g) ! i = fst g \<and> (\<forall>r \<in> set (tl (snd g)). r ! i = '''')))"
proof (intro conjI ballI)
  let ?acc = "filter (accepted sender_lists target_lists) transactions"
  show "get_output fm transactions sender_lists target_lists cp columns =
     Inr (Table
       ((case cp of Some p \<Rightarrow> style_header p | None \<Rightarrow> (\<lambda>hs. hs))
          (map (\<lambda>col. the (map_of COL_MAP col)) columns))
       (grouped_rows fm cp columns ?acc))"
    using assms by (rule get_output_table)
  show "distinct (map fst (groups fm cp columns ?acc))"
    by (simp add: map_fst_groups)
  fix g assume "g \<in> set (groups fm cp columns ?acc)"
  then have "fst g \<in> set (map (\<lambda>t. value (sender t)) ?acc)"
    and "snd g = sender_group fm cp columns (fst g) ?acc"
    by (auto simp: groups_def)
  with sender_group_cells [of "fst g" ?acc fm cp columns]
  show "snd g \<noteq> []"
    and "length (snd g) = length (filter (\<lambda>t. value (sender t) = fst g) ?acc)"
    and "\<forall>i < length columns. columns ! i = ''sender'' \<longrightarrow>
           hd (snd g) ! i = fst g \<and> (\<forall>r \<in> set (tl (snd g)). r ! i = '''')"
    by simp_all
qed

theorem get_output_headers_and_groups_witness:
  "example_transactions \<noteq> [] \<and> set [''sender'', ''target''] \<subseteq> set (map fst COL_MAP) \<and>
   get_output example_formatters example_transactions None None None [''sender'', ''target''] =
     Inr (Table [''Sender'', ''Target'']
            [[''10.0.0.5'', ''10.0.0.9''], ['''', ''10.0.0.7''], [''10.0.0.6'', ''10.0.0.9'']])"
proof -
  have 1: "example_transactions \<noteq> []"
    by (simp add: example_transactions_def)
  have 2: "set [''sender'', ''target''] \<subseteq> set (map fst COL_MAP)"
    by (simp add: COL_MAP_def)
  from get_output_headers_and_groups [OF 1 2, of example_formatters None None None]
    get_output_three_rows 1 2
  show ?thesis
    by simp
qed


subsection \<open>C10: filtering when the table is rendered\<close>

text \<open>
  C10: whenever \<^verbatim>\<open>get_output\<close>, called with the two lists objects, renders a table, its rows
  are the grouped rows of exactly those transactions whose sender passes
  \<^verbatim>\<open>sender_lists.check\<close> and whose target passes \<^verbatim>\<open>target_lists.check\<close>, one row for each
  of them: a transaction that fails either check has no row, although it is in the
  database.
\<close>

theorem get_output_filters_at_render:
  assumes "get_output fm transactions (Some s_lists) (Some t_lists) cp columns =
             Inr (Table headers rows)"
  shows "rows = grouped_rows fm cp columns
                  (filter (\<lambda>t. check s_lists (value (sender t)) \<and>
                                check t_lists (value (target t))) transactions) \<and>
         length rows =
           length (filter (\<lambda>t. check s_lists (value (sender t)) \<and>
                                check t_lists (value (target t))) transactions)"
proof -
  have "accepted (Some s_lists) (Some t_lists) =
      (\<lambda>t. check s_lists (value (sender t)) \<and> check t_lists (value (target t)))"
    by (auto simp: accepted_def rejected_def)
  with get_output_rows [OF assms] show ?thesis
    by (simp add: length_grouped_rows)
qed

theorem get_output_filters_at_render_witness:
  "get_output example_formatters example_transactions
      (Some \<lparr>white = [], black = [''10.0.0.5'']\<rparr>) (Some \<lparr>white = [], black = []\<rparr>) None
      [''sender'', ''target''] =
     Inr (Table [''Sender'', ''Target''] [[''10.0.0.6'', ''10.0.0.9'']]) \<and>
   filter (\<lambda>t. check \<lparr>white = [], black = [''10.0.0.5'']\<rparr> (value (sender t)) \<and>
               check \<lparr>white = [], black = []\<rparr> (value (target t))) example_transactions =
     [new_transaction ''10.0.0.6'' ''bb'' ''10.0.0.9'' 2]"
  using get_output_filters_at_render [OF get_output_blacklisted] get_output_blacklisted
  by (simp add: example_transactions_def check_def new_transaction_def new_host_def)

subsection \<open>C3: the anomaly flag\<close>

text \<open>
  C3, on the resolver as the specification describes it (the resolver itself belongs to
  the package): after any number of enrichments of a transaction, \<^verbatim>\<open>mitm_op\<close> is true if
  and only if the reverse resolution of the target address succeeds and the forward
  resolution of the returned hostname fails or yields an address other than the
  target's; whenever the reverse resolution fails, \<^verbatim>\<open>mitm_op\<close> is false.
\<close>

theorem mitm_op_iff:
  "(mitm_op ((enrich r cfg ^^ Suc n) (new_transaction sender_ip sender_mac target_ip ts)) \<longleftrightarrow>
      reverse_enabled cfg \<and>
      (\<exists>name. reverse_lookup r target_ip = Some name \<and>
              forward_lookup r name \<noteq> Some target_ip)) \<and>
   (reverse_lookup r target_ip = None \<longrightarrow>
      \<not> mitm_op ((enrich r cfg ^^ Suc n) (new_transaction sender_ip sender_mac target_ip ts)))"
  using enrich_repeated [where r = r and cfg = cfg and target_ip = target_ip and n = n
      and sender_ip = sender_ip and sender_mac = sender_mac and ts = ts]
  unfolding enriched_def anomaly_def by auto

theorem mitm_op_iff_witness:
  "reverse_lookup example_resolver ''10.0.0.8'' = None \<and>
   \<not> mitm_op ((enrich example_resolver example_settings ^^ Suc 0)
      (new_transaction ''10.0.0.5'' ''aa'' ''10.0.0.8'' 0)) \<and>
   mitm_op ((enrich example_resolver example_settings ^^ Suc 0)
      (new_transaction ''10.0.0.5'' ''aa'' ''10.0.0.9'' 0))"
  using mitm_op_iff [where r = example_resolver and cfg = example_settings and n = 0
      and sender_ip = "''10.0.0.5''" and sender_mac = "''aa''" and target_ip = "''10.0.0.8''"
      and ts = 0]
    mitm_op_iff [where r = example_resolver and cfg = example_settings and n = 0
      and sender_ip = "''10.0.0.5''" and sender_mac = "''aa''" and target_ip = "''10.0.0.9''"
      and ts = 0]
  by (simp add: example_resolver_def example_settings_def)

end
